theory Spec2Isabelle
  imports Complex_Main "HOL-Library.Word" "HOL-Library.Sublist" "HOL-Library.Multiset"
begin

section \<open>PhotoFilter: the local analysis service\<close>

text \<open>
  A shallow embedding of \<^verbatim>\<open>src/services/geminiService.ts\<close>, of the types it uses and of
  the per-record classification of \<^verbatim>\<open>startProcessing\<close> in \<^verbatim>\<open>src/App.tsx\<close>.

  Conventions of the embedding.
  \<^item> A JavaScript number is a \<^typ>\<open>real\<close>: arithmetic is exact. Counts, sizes and image
    dimensions are \<^typ>\<open>nat\<close>. The two quotients whose divisor can be 0, by the width
    and by the height of the image, have their non-finite results written out
    (\<open>analysis_height\<close>, \<open>js_divide\<close>); no other computation of the service yields
    \<^verbatim>\<open>NaN\<close> or reads a typed array out of range (\<open>getImageData_positive\<close>,
    \<open>sharpness_reads_in_range\<close>, \<open>exposure_reads_in_range\<close>, \<open>dhash_reads_in_range\<close>).
  \<^item> A JavaScript string is a \<^typ>\<open>string\<close>; \<^verbatim>\<open>s[i]\<close> is \<open>char_at s i\<close>, which is
    \<open>None\<close> (JavaScript's \<^verbatim>\<open>undefined\<close>) out of range.
  \<^item> A promise is the value it settles to: \<open>Inr v\<close> when it resolves with \<open>v\<close>,
    \<open>Inl e\<close> when it rejects with \<open>e\<close>. A \<^verbatim>\<open>throw\<close> inside a \<^verbatim>\<open>try\<close> is an \<open>Inl\<close> that
    the \<^verbatim>\<open>catch\<close> branch consumes.
\<close>

subsection \<open>Strings\<close>

definition char_at :: "string \<Rightarrow> nat \<Rightarrow> char option" where
  "char_at s i = (if i < length s then Some (s ! i) else None)"

text \<open>
  \<^verbatim>\<open>String.prototype.toLowerCase\<close> on the letters that matter to the service: the
  patterns searched for are ASCII, and no character other than an ASCII capital is
  lowered to an ASCII letter occurring in them.
\<close>

definition toLowerCase_char :: "char \<Rightarrow> char" where
  "toLowerCase_char c =
     (case map_of (zip ''ABCDEFGHIJKLMNOPQRSTUVWXYZ'' ''abcdefghijklmnopqrstuvwxyz'') c of
        None \<Rightarrow> c
      | Some l \<Rightarrow> l)"

definition toLowerCase :: "string \<Rightarrow> string" where
  "toLowerCase s = map toLowerCase_char s"

text \<open>\<^verbatim>\<open>s.includes(pat)\<close>: \<open>pat\<close> occurs in \<open>s\<close> as a contiguous substring.\<close>

fun string_includes :: "string \<Rightarrow> string \<Rightarrow> bool" where
  "string_includes [] pat = (pat = [])"
| "string_includes (c # s) pat = (prefix pat (c # s) \<or> string_includes s pat)"

text \<open>Decimal digits of a natural number, for \<^verbatim>\<open>Number.prototype.toFixed\<close>.\<close>

definition digit_char :: "nat \<Rightarrow> char" where
  "digit_char d = ''0123456789'' ! d"

function string_of_nat :: "nat \<Rightarrow> string" where
  "string_of_nat n =
     (if n < 10 then [digit_char n] else string_of_nat (n div 10) @ [digit_char (n mod 10)])"
  by pat_completeness auto
termination
  by (relation "measure (\<lambda>n. n)") auto

declare string_of_nat.simps [simp del]

text \<open>
  \<^verbatim>\<open>x.toFixed(1)\<close> for \<open>0 \<le> x < 10\<^sup>2\<^sup>1\<close>: the integer \<open>n\<close> with \<open>n / 10\<close> nearest to
  \<open>x\<close>, the larger one on a tie, printed with one digit after the point.
\<close>

definition toFixed1 :: "real \<Rightarrow> string" where
  "toFixed1 x =
     (let n = nat \<lfloor>x * 10 + 1 / 2\<rfloor>
      in string_of_nat (n div 10) @ ''.'' @ string_of_nat (n mod 10))"

subsection \<open>The types of \<^verbatim>\<open>types.ts\<close>\<close>

datatype ClassificationCategory = KEEP | DISCARD | UNSURE | PENDING

record AnalysisResult =
  category :: ClassificationCategory
  confidence :: nat
  reason :: string
  tags :: "string list"

record QualityScore =
  sharpness :: real
  exposure :: real
  resolution :: real
  total_score :: real
  details :: "string list"

subsection \<open>The browser\<close>

text \<open>
  The service runs on the DOM: it decodes a file with an \<^verbatim>\<open>Image\<close> element, draws it on
  a canvas and reads the pixels back. The repository does not implement these; the
  embedding takes their outcome as data.
  \<^item> An \<open>HTMLImageElement\<close> has its dimensions and, for every canvas size, the RGBA
    bytes that drawing it scaled to that size leaves on the canvas (\<open>resampled\<close>: the
    resampling filter is the browser's).
  \<^item> A \<open>File\<close> has its name, its size in bytes, and the image that \<^verbatim>\<open>loadImage\<close>
    resolves with, or \<open>None\<close> when the \<^verbatim>\<open>onerror\<close> handler fires.
  \<^item> A \<open>Browser\<close> says whether \<^verbatim>\<open>canvas.getContext('2d')\<close> gives a context or
    \<^verbatim>\<open>null\<close>, and for which canvas sizes \<^verbatim>\<open>getImageData\<close> succeeds.
\<close>

datatype error =
  LoadError
  | Error string
  | TypeError
  | IndexSizeError
  | ReadbackError

record HTMLImageElement =
  width :: nat
  height :: nat
  resampled :: "nat \<Rightarrow> nat \<Rightarrow> nat \<Rightarrow> 8 word"

record File =
  file_name :: string
  file_size :: nat
  file_image :: "HTMLImageElement option"

record Browser =
  context2d :: bool
  readback_ok :: "nat \<Rightarrow> nat \<Rightarrow> bool"

record CanvasRenderingContext2D =
  canvas_width :: nat
  canvas_height :: nat
  bitmap :: "nat \<Rightarrow> 8 word"

type_synonym Uint8ClampedArray = "8 word list"

definition loadImage :: "File \<Rightarrow> error + HTMLImageElement" where
  "loadImage f = (case file_image f of None \<Rightarrow> Inl LoadError | Some img \<Rightarrow> Inr img)"

text \<open>A new canvas is 300 by 150 and transparent black.\<close>

definition blank_canvas :: CanvasRenderingContext2D where
  "blank_canvas = \<lparr>canvas_width = 300, canvas_height = 150, bitmap = (\<lambda>i. 0)\<rparr>"

definition getContext :: "Browser \<Rightarrow> CanvasRenderingContext2D option" where
  "getContext br = (if context2d br then Some blank_canvas else None)"

text \<open>
  \<^verbatim>\<open>canvas.width = w; canvas.height = h; ctx.drawImage(img, 0, 0, w, h)\<close>: the service
  always draws onto the whole canvas, just resized.
\<close>

definition drawImage ::
  "CanvasRenderingContext2D \<Rightarrow> HTMLImageElement \<Rightarrow> nat \<Rightarrow> nat \<Rightarrow> CanvasRenderingContext2D"
where
  "drawImage ctx img w h =
     \<lparr>canvas_width = w, canvas_height = h, bitmap = resampled img w h\<rparr>"

text \<open>
  \<^verbatim>\<open>ctx.getImageData(0, 0, sw, sh).data\<close>: an \<^verbatim>\<open>IndexSizeError\<close> when a side is 0,
  otherwise the \<open>4 \<cdot> sw \<cdot> sh\<close> bytes of the rectangle, row by row, four per pixel.
\<close>

definition getImageData ::
  "Browser \<Rightarrow> CanvasRenderingContext2D \<Rightarrow> nat \<Rightarrow> nat \<Rightarrow> error + Uint8ClampedArray"
where
  "getImageData br ctx sw sh =
     (if sw = 0 \<or> sh = 0 then Inl IndexSizeError
      else if \<not> readback_ok br sw sh then Inl ReadbackError
      else Inr (map (bitmap ctx) [0..<4 * sw * sh]))"

definition u8 :: "Uint8ClampedArray \<Rightarrow> nat \<Rightarrow> real" where
  "u8 d i = real (unat (d ! i))"

subsection \<open>Scoring heuristics\<close>

text \<open>
  \<^verbatim>\<open>for (let i = 0; i < data.length; i += 16) { if (i + 4 < data.length) { ... } }\<close>
  with \<^verbatim>\<open>current = (data[i] + data[i+1] + data[i+2]) / 3\<close> and
  \<^verbatim>\<open>next = (data[i+4] + data[i+5] + data[i+6]) / 3\<close>.
\<close>

definition gray :: "Uint8ClampedArray \<Rightarrow> nat \<Rightarrow> real" where
  "gray d i = (u8 d i + u8 d (i + 1) + u8 d (i + 2)) / 3"

function sharpness_loop :: "Uint8ClampedArray \<Rightarrow> nat \<Rightarrow> real \<Rightarrow> nat \<Rightarrow> real \<times> nat" where
  "sharpness_loop d i sm cnt =
     (if i < length d
      then (if i + 4 < length d
            then sharpness_loop d (i + 16) (sm + \<bar>gray d i - gray d (i + 4)\<bar>) (cnt + 1)
            else sharpness_loop d (i + 16) sm cnt)
      else (sm, cnt))"
  by pat_completeness auto
termination
  by (relation "measure (\<lambda>(d, i, sm, cnt). length d - i)") auto

declare sharpness_loop.simps [simp del]

definition calculateSharpness ::
  "Browser \<Rightarrow> CanvasRenderingContext2D \<Rightarrow> nat \<Rightarrow> nat \<Rightarrow> real"
where
  "calculateSharpness br ctx w h =
     (case getImageData br ctx w h of
        Inl e \<Rightarrow> 0
      | Inr d \<Rightarrow>
          (case sharpness_loop d 0 0 0 of
             (sm, cnt) \<Rightarrow> if cnt > 0 then sm / real cnt else 0))"

text \<open>
  \<^verbatim>\<open>for (let i = 0; i < data.length; i += 4) totalLuma += data[i] * 0.299 + ...\<close>
\<close>

function exposure_loop :: "Uint8ClampedArray \<Rightarrow> nat \<Rightarrow> real \<Rightarrow> real" where
  "exposure_loop d i totalLuma =
     (if i < length d
      then exposure_loop d (i + 4)
             (totalLuma + (u8 d i * 0.299 + u8 d (i + 1) * 0.587 + u8 d (i + 2) * 0.114))
      else totalLuma)"
  by pat_completeness auto
termination
  by (relation "measure (\<lambda>(d, i, totalLuma). length d - i)") auto

declare exposure_loop.simps [simp del]

definition calculateExposureScore ::
  "Browser \<Rightarrow> CanvasRenderingContext2D \<Rightarrow> nat \<Rightarrow> nat \<Rightarrow> real"
where
  "calculateExposureScore br ctx w h =
     (case getImageData br ctx w h of
        Inl e \<Rightarrow> 0.5
      | Inr d \<Rightarrow>
          (let totalLuma = exposure_loop d 0 0;
               avgLuma = totalLuma / real (w * h);
               dst = \<bar>128 - avgLuma\<bar>
           in max 0 (1 - dst / 128)))"

subsection \<open>Difference hash\<close>

text \<open>
  The canvas is resized to 9 by 8 and the image drawn on it; bit \<open>(x, y)\<close> compares
  the gray value of pixel \<open>(x, y)\<close> with that of its right neighbour. A failing
  \<^verbatim>\<open>getImageData\<close> is not caught here.
\<close>

definition dhash_bit :: "Uint8ClampedArray \<Rightarrow> nat \<Rightarrow> nat \<Rightarrow> char" where
  "dhash_bit d y x =
     (let iLeft = (y * 9 + x) * 4;
          iRight = (y * 9 + x + 1) * 4;
          leftVal = gray d iLeft;
          rightVal = gray d iRight
      in if leftVal > rightVal then CHR ''1'' else CHR ''0'')"

definition computeDHash ::
  "Browser \<Rightarrow> CanvasRenderingContext2D \<Rightarrow> HTMLImageElement \<Rightarrow> error + string"
where
  "computeDHash br ctx img =
     (case getImageData br (drawImage ctx img 9 8) 9 8 of
        Inl e \<Rightarrow> Inl e
      | Inr d \<Rightarrow> Inr (concat (map (\<lambda>y. map (\<lambda>x. dhash_bit d y x) [0..<8]) [0..<8])))"

subsection \<open>Hamming distance\<close>

text \<open>
  \<^verbatim>\<open>for (let i = 0; i < hash1.length; i++) { if (hash1[i] !== hash2[i]) dist++; }\<close>
\<close>

function hamming_loop :: "string \<Rightarrow> string \<Rightarrow> nat \<Rightarrow> nat \<Rightarrow> nat" where
  "hamming_loop hash1 hash2 i dst =
     (if i < length hash1
      then hamming_loop hash1 hash2 (i + 1)
             (if char_at hash1 i \<noteq> char_at hash2 i then dst + 1 else dst)
      else dst)"
  by pat_completeness auto
termination
  by (relation "measure (\<lambda>(hash1, hash2, i, dst). length hash1 - i)") auto

declare hamming_loop.simps [simp del]

definition calculateHammingDistance :: "string \<Rightarrow> string \<Rightarrow> nat" where
  "calculateHammingDistance hash1 hash2 = hamming_loop hash1 hash2 0 0"

subsection \<open>Quality score\<close>

text \<open>
  \<^verbatim>\<open>Math.floor(img.height * (320 / img.width))\<close>. When \<^verbatim>\<open>img.width\<close> is 0 the
  JavaScript value is \<^verbatim>\<open>Infinity\<close> or \<^verbatim>\<open>NaN\<close>, which the canvas and \<^verbatim>\<open>getImageData\<close>
  both take as 0.
\<close>

definition analysis_height :: "HTMLImageElement \<Rightarrow> nat" where
  "analysis_height img =
     (if width img = 0 then 0
      else nat \<lfloor>real (height img) * (320 / real (width img))\<rfloor>)"

definition quality_details :: "real \<Rightarrow> real \<Rightarrow> real \<Rightarrow> string list" where
  "quality_details normSharpness expo res =
     (if normSharpness > 0.7 then [''Very Sharp'']
      else if normSharpness < 0.3 then [''Blurry''] else [])
     @ (if expo > 0.8 then [''Good Exposure'']
        else if expo < 0.4 then [''Poor Exposure''] else [])
     @ [toFixed1 res @ ''MP'']"

text \<open>The body of the \<^verbatim>\<open>try\<close> block of \<^verbatim>\<open>calculateImageQuality\<close>.\<close>

definition calculateImageQuality_try :: "Browser \<Rightarrow> File \<Rightarrow> error + QualityScore" where
  "calculateImageQuality_try br f =
     (case loadImage f of
        Inl e \<Rightarrow> Inl e
      | Inr img \<Rightarrow>
          (case getContext br of
             None \<Rightarrow> Inl (Error ''No context'')
           | Some canvas \<Rightarrow>
               (let w = 320;
                    h = analysis_height img;
                    ctx = drawImage canvas img w h;
                    sharp = calculateSharpness br ctx w h;
                    expo = calculateExposureScore br ctx w h;
                    res = real (width img * height img) / 1000000;
                    normSharpness = min (max ((sharp - 2) / 6) 0) 1;
                    normRes = min (max ((res - 2) / 10) 0) 1;
                    tot = normSharpness * 0.6 + expo * 0.2 + normRes * 0.2
                in Inr \<lparr>sharpness = normSharpness, exposure = expo, resolution = normRes,
                         total_score = tot,
                         details = quality_details normSharpness expo res\<rparr>)))"

definition calculateImageQuality :: "Browser \<Rightarrow> File \<Rightarrow> error + QualityScore" where
  "calculateImageQuality br f =
     (case calculateImageQuality_try br f of
        Inl e \<Rightarrow>
          Inr \<lparr>sharpness = 0, exposure = 0, resolution = 0, total_score = 0, details = []\<rparr>
      | Inr q \<Rightarrow> Inr q)"

subsection \<open>Classification of an image\<close>

text \<open>
  \<^verbatim>\<open>img.width / img.height\<close> is the one quotient of the service whose divisor can be 0
  where the result is then compared: JavaScript gives \<^verbatim>\<open>Infinity\<close> for a positive
  numerator, \<^verbatim>\<open>NaN\<close> for \<^verbatim>\<open>0 / 0\<close>, and every comparison with \<^verbatim>\<open>NaN\<close> is false.
\<close>

datatype quotient = Finite real | Infinity | NaN

definition js_divide :: "nat \<Rightarrow> nat \<Rightarrow> quotient" where
  "js_divide a b =
     (if b \<noteq> 0 then Finite (real a / real b) else if a = 0 then NaN else Infinity)"

fun js_less :: "quotient \<Rightarrow> real \<Rightarrow> bool" where
  "js_less (Finite x) c = (x < c)"
| "js_less Infinity c = False"
| "js_less NaN c = False"

fun js_greater :: "quotient \<Rightarrow> real \<Rightarrow> bool" where
  "js_greater (Finite x) c = (x > c)"
| "js_greater Infinity c = True"
| "js_greater NaN c = False"

text \<open>The body of the \<^verbatim>\<open>try\<close> block of \<^verbatim>\<open>analyzeImage\<close>.\<close>

definition analyzeImage_try :: "Browser \<Rightarrow> File \<Rightarrow> error + AnalysisResult" where
  "analyzeImage_try br f =
     (let name = toLowerCase (file_name f);
          sizeKB = real (file_size f) / 1024
      in if string_includes name ''screenshot'' \<or> string_includes name ''screen_recording''
         then Inr \<lparr>category = DISCARD, confidence = 98,
                   reason = ''Filename indicates a screenshot'', tags = [''Screenshot'']\<rparr>
         else if sizeKB < 150
         then Inr \<lparr>category = DISCARD, confidence = 85,
                   reason = ''Low resolution (small file size)'', tags = [''Small'']\<rparr>
         else
           (case loadImage f of
              Inl e \<Rightarrow> Inl e
            | Inr img \<Rightarrow>
                (case getContext br of
                   None \<Rightarrow> Inl (Error ''Context error'')
                 | Some canvas \<Rightarrow>
                     (let w = 320;
                          h = analysis_height img;
                          ctx = drawImage canvas img w h;
                          ratio = js_divide (width img) (height img);
                          sharp = calculateSharpness br ctx w h
                      in if js_less ratio 0.48 \<or> js_greater ratio 2.2
                         then Inr \<lparr>category = DISCARD, confidence = 80,
                                   reason = ''Unusual aspect ratio'', tags = [''Aspect'']\<rparr>
                         else if sharp < 2.5
                         then Inr \<lparr>category = DISCARD, confidence = 75,
                                   reason = ''Image appears blurry'', tags = [''Blurry'']\<rparr>
                         else Inr \<lparr>category = KEEP, confidence = 65,
                                   reason = ''Standard image resolution'',
                                   tags = [''Image'']\<rparr>))))"

definition analyzeImage :: "Browser \<Rightarrow> File \<Rightarrow> error + AnalysisResult" where
  "analyzeImage br f =
     (case analyzeImage_try br f of
        Inl e \<Rightarrow>
          Inr \<lparr>category = UNSURE, confidence = 0, reason = ''Analysis failed'',
               tags = [''Error'']\<rparr>
      | Inr r \<Rightarrow> Inr r)"

subsection \<open>Media items and duplicate groups\<close>

datatype MediaType = Image | Video

datatype Status = Queued | Analyzing | Done | Failed

record MediaItem =
  item_id :: string
  item_file :: File
  previewUrl :: string
  item_type :: MediaType
  item_size :: nat
  name :: string
  timestamp :: int
  status :: Status
  analysis :: "AnalysisResult option"
  hash :: "string option"
  quality :: "QualityScore option"

record DuplicateGroup =
  group_id :: string
  items :: "MediaItem list"
  bestItemId :: string
  scoreGap :: real

subsection \<open>Duplicate detection\<close>

text \<open>
  \<^verbatim>\<open>item.hash\<close> in a condition: \<^verbatim>\<open>undefined\<close> and the empty string are falsy.
\<close>

definition truthy :: "string option \<Rightarrow> bool" where
  "truthy h = (case h of None \<Rightarrow> False | Some s \<Rightarrow> s \<noteq> [])"

text \<open>
  The first loop: videos are skipped; an item lacking a hash or a quality gets both
  computed and stored. Neither \<^verbatim>\<open>loadImage\<close> nor \<^verbatim>\<open>computeDHash\<close> is inside a
  \<^verbatim>\<open>try\<close> here, and the context is taken with \<^verbatim>\<open>getContext('2d')!\<close>, so that
  \<^verbatim>\<open>computeDHash\<close> throws a \<^verbatim>\<open>TypeError\<close> on \<^verbatim>\<open>null\<close>.
\<close>

fun prepare_items :: "Browser \<Rightarrow> MediaItem list \<Rightarrow> error + MediaItem list" where
  "prepare_items br [] = Inr []"
| "prepare_items br (item # rest) =
     (if item_type item = Video then prepare_items br rest
      else if \<not> truthy (hash item) \<or> quality item = None
      then
        (case loadImage (item_file item) of
           Inl e \<Rightarrow> Inl e
         | Inr img \<Rightarrow>
             (case (case getContext br of
                      None \<Rightarrow> Inl TypeError
                    | Some ctx \<Rightarrow> computeDHash br ctx img) of
                Inl e \<Rightarrow> Inl e
              | Inr h \<Rightarrow>
                  (case calculateImageQuality br (item_file item) of
                     Inl e \<Rightarrow> Inl e
                   | Inr q \<Rightarrow>
                       (case prepare_items br rest of
                          Inl e \<Rightarrow> Inl e
                        | Inr processed \<Rightarrow>
                            Inr (item\<lparr>hash := Some h, quality := Some q\<rparr> # processed)))))
      else
        (case prepare_items br rest of
           Inl e \<Rightarrow> Inl e
         | Inr processed \<Rightarrow> Inr (item # processed)))"

text \<open>\<^verbatim>\<open>(x.quality?.total || 0)\<close>\<close>

definition quality_total :: "MediaItem \<Rightarrow> real" where
  "quality_total x =
     (case quality x of None \<Rightarrow> 0 | Some q \<Rightarrow> if total_score q = 0 then 0 else total_score q)"

text \<open>
  \<^verbatim>\<open>current.hash && candidate.hash\<close> and a distance of at most 5.
\<close>

fun near_duplicate :: "string option \<Rightarrow> string option \<Rightarrow> bool" where
  "near_duplicate (Some h1) (Some h2) =
     (h1 \<noteq> [] \<and> h2 \<noteq> [] \<and> calculateHammingDistance h1 h2 \<le> 5)"
| "near_duplicate _ _ = False"

text \<open>
  The body of the inner loop, on the group under construction and the set of visited
  ids: a visited candidate is passed over, a near duplicate of \<open>current\<close> joins the
  group and becomes visited.
\<close>

definition window_body ::
  "MediaItem list \<Rightarrow> MediaItem \<Rightarrow> nat \<Rightarrow> MediaItem list \<times> string set
     \<Rightarrow> MediaItem list \<times> string set"
where
  "window_body processedItems current j st =
     (case st of
        (currentGroupItems, visited) \<Rightarrow>
          (let candidate = processedItems ! j
           in if item_id candidate \<in> visited then (currentGroupItems, visited)
              else if near_duplicate (hash current) (hash candidate)
              then (currentGroupItems @ [candidate], insert (item_id candidate) visited)
              else (currentGroupItems, visited)))"

text \<open>\<^verbatim>\<open>for (let j = i + 1; j < lookAhead; j++) { ... }\<close>\<close>

function window_loop ::
  "MediaItem list \<Rightarrow> MediaItem \<Rightarrow> nat \<Rightarrow> nat \<Rightarrow> MediaItem list \<times> string set
     \<Rightarrow> MediaItem list \<times> string set"
where
  "window_loop processedItems current lookAhead j st =
     (if j < lookAhead
      then window_loop processedItems current lookAhead (j + 1)
             (window_body processedItems current j st)
      else st)"
  by pat_completeness auto
termination
  by (relation "measure (\<lambda>(processedItems, current, lookAhead, j, st). lookAhead - j)") auto

declare window_loop.simps [simp del]

text \<open>
  \<^verbatim>\<open>Array.prototype.sort\<close> is stable, and both comparators of the service are
  differences of a key, so the result is the stable sort by that key: by \<open>timestamp\<close>
  ascending, and by \<open>quality_total\<close> descending.
\<close>

definition make_group :: "MediaItem \<Rightarrow> MediaItem list \<Rightarrow> DuplicateGroup" where
  "make_group current currentGroupItems =
     (let sorted_items = sort_key (\<lambda>x. - quality_total x) currentGroupItems;
          best = sorted_items ! 0;
          runnerUp = sorted_items ! 1;
          gap = quality_total best - quality_total runnerUp
      in \<lparr>group_id = ''group-'' @ item_id current, items = sorted_items,
           bestItemId = item_id best, scoreGap = gap\<rparr>)"

text \<open>
  The body of the outer loop, on the groups emitted so far and the set of visited ids:
  an unvisited item seeds a group, the window after it is scanned up to
  \<^verbatim>\<open>lookAhead = Math.min(processedItems.length, i + 50)\<close>, and the group is emitted
  when it has more than one member.
\<close>

definition group_body ::
  "MediaItem list \<Rightarrow> nat \<Rightarrow> DuplicateGroup list \<times> string set
     \<Rightarrow> DuplicateGroup list \<times> string set"
where
  "group_body processedItems i st =
     (case st of
        (groups, visited) \<Rightarrow>
          (let current = processedItems ! i
           in if item_id current \<in> visited then (groups, visited)
              else
                (let lookAhead = min (length processedItems) (i + 50)
                 in case window_loop processedItems current lookAhead (i + 1)
                           ([current], insert (item_id current) visited) of
                      (currentGroupItems, visited') \<Rightarrow>
                        if length currentGroupItems > 1
                        then (groups @ [make_group current currentGroupItems], visited')
                        else (groups, visited'))))"

text \<open>\<^verbatim>\<open>for (let i = 0; i < processedItems.length; i++) { ... }\<close>\<close>

function group_loop ::
  "MediaItem list \<Rightarrow> nat \<Rightarrow> DuplicateGroup list \<times> string set
     \<Rightarrow> DuplicateGroup list \<times> string set"
where
  "group_loop processedItems i st =
     (if i < length processedItems
      then group_loop processedItems (i + 1) (group_body processedItems i st)
      else st)"
  by pat_completeness auto
termination
  by (relation "measure (\<lambda>(processedItems, i, st). length processedItems - i)") auto

declare group_loop.simps [simp del]

definition detectDuplicates :: "Browser \<Rightarrow> MediaItem list \<Rightarrow> error + DuplicateGroup list" where
  "detectDuplicates br its =
     (let sortedItems = sort_key timestamp its
      in case prepare_items br sortedItems of
           Inl e \<Rightarrow> Inl e
         | Inr processedItems \<Rightarrow> Inr (fst (group_loop processedItems 0 ([], {}))))"

subsection \<open>Processing a batch (\<^verbatim>\<open>App.tsx\<close>)\<close>

text \<open>
  \<^verbatim>\<open>setItems(prev => prev.map(it => it.id === item.id ? {...it, ...} : it))\<close>
\<close>

definition update_item ::
  "string \<Rightarrow> (MediaItem \<Rightarrow> MediaItem) \<Rightarrow> MediaItem list \<Rightarrow> MediaItem list"
where
  "update_item i f prev = map (\<lambda>it. if item_id it = i then f it else it) prev"

definition classifyVideo :: "MediaItem \<Rightarrow> AnalysisResult" where
  "classifyVideo item =
     (let isScreenRec = string_includes (toLowerCase (name item)) ''screen''
      in \<lparr>category = (if isScreenRec then DISCARD else KEEP),
          confidence = 85,
          reason = (if isScreenRec then ''Screen Recording Detected'' else ''Video content''),
          tags = [''Video'']\<rparr>)"

text \<open>
  What the callback of \<^verbatim>\<open>batch.map\<close> does to the list of items for one item: the
  status becomes \<^verbatim>\<open>analyzing\<close>, then \<^verbatim>\<open>done\<close> with the analysis, or \<^verbatim>\<open>error\<close> when
  \<^verbatim>\<open>analyzeImage\<close> rejects.
\<close>

definition process_item :: "Browser \<Rightarrow> MediaItem \<Rightarrow> MediaItem list \<Rightarrow> MediaItem list" where
  "process_item br item prev =
     (let prev1 = update_item (item_id item) (\<lambda>it. it\<lparr>status := Analyzing\<rparr>) prev
      in if item_type item = Video
         then update_item (item_id item)
                (\<lambda>it. it\<lparr>status := Done, analysis := Some (classifyVideo item)\<rparr>) prev1
         else
           (case analyzeImage br (item_file item) of
              Inl e \<Rightarrow> update_item (item_id item) (\<lambda>it. it\<lparr>status := Failed\<rparr>) prev1
            | Inr a \<Rightarrow>
                update_item (item_id item) (\<lambda>it. it\<lparr>status := Done, analysis := Some a\<rparr>) prev1))"

text \<open>
  \<^verbatim>\<open>startProcessing\<close> on the list that \<^verbatim>\<open>handleFileUpload\<close> has just stored with
  \<^verbatim>\<open>setItems\<close>. The items of a batch of five run interleaved; the embedding runs them
  in list order.
\<close>

definition startProcessing :: "Browser \<Rightarrow> MediaItem list \<Rightarrow> MediaItem list" where
  "startProcessing br filesToProcess = fold (process_item br) filesToProcess filesToProcess"

subsection \<open>Example inputs\<close>

text \<open>A browser in which a context is always obtained and every readback succeeds.\<close>

definition example_browser :: Browser where
  "example_browser = \<lparr>context2d = True, readback_ok = (\<lambda>w h. True)\<rparr>"

text \<open>
  Three decoded images: a 12 megapixel picture whose pixels alternate between black
  and white, one of the same size that is uniformly mid-gray, and a strip of 1000 by 1
  pixels, for which the analysis canvas has height \<open>\<lfloor>1 \<cdot> 320 / 1000\<rfloor> = 0\<close>.
\<close>

definition checkerboard :: HTMLImageElement where
  "checkerboard =
     \<lparr>width = 4000, height = 3000,
      resampled = (\<lambda>w h i. if even (i div 4) then 0 else 255)\<rparr>"

definition gray_card :: HTMLImageElement where
  "gray_card = \<lparr>width = 4000, height = 3000, resampled = (\<lambda>w h i. 128)\<rparr>"

definition strip :: HTMLImageElement where
  "strip = \<lparr>width = 1000, height = 1, resampled = (\<lambda>w h i. 128)\<rparr>"

definition example_file :: "string \<Rightarrow> nat \<Rightarrow> HTMLImageElement option \<Rightarrow> File" where
  "example_file n sz img = \<lparr>file_name = n, file_size = sz, file_image = img\<rparr>"

definition example_item ::
  "string \<Rightarrow> MediaType \<Rightarrow> File \<Rightarrow> int \<Rightarrow> string option \<Rightarrow> QualityScore option \<Rightarrow> MediaItem"
where
  "example_item i ty f ts h q =
     \<lparr>item_id = i, item_file = f, previewUrl = ''blob:'' @ i, item_type = ty,
      item_size = file_size f, name = file_name f, timestamp = ts, status = Queued,
      analysis = None, hash = h, quality = q\<rparr>"

text \<open>
  A burst of \<open>n\<close> images taken one millisecond apart, all with the same hash and the
  same quality already stored, with the ids \<open>0\<close>, \<open>1\<close>, ...
\<close>

definition example_quality :: QualityScore where
  "example_quality =
     \<lparr>sharpness = 1, exposure = 1, resolution = 1, total_score = 1,
      details = [''Very Sharp'', ''Good Exposure'', ''12.0MP'']\<rparr>"

definition burst :: "nat \<Rightarrow> MediaItem list" where
  "burst n =
     map (\<lambda>k. example_item (string_of_nat k) Image (example_file ''photo.jpg'' 800000 None)
                (int k) (Some (replicate 64 CHR ''0'')) (Some example_quality))
       [0..<n]"

text \<open>
  Five shots with a hash and a quality already stored, listed out of the order of
  their timestamps. By timestamp they are \<open>a\<close>, \<open>b\<close>, \<open>c\<close>, \<open>d\<close>, \<open>e\<close>. The hashes of
  \<open>b\<close> and \<open>c\<close> differ from that of \<open>a\<close> in one and in two bits, those of \<open>d\<close> and
  \<open>e\<close> in 64 and in 63, and \<open>e\<close> differs from \<open>d\<close> in one bit. The totals are 0.7,
  0.9, 0.5, 0.8 and 0.6.
\<close>

definition shot :: "string \<Rightarrow> int \<Rightarrow> string \<Rightarrow> real \<Rightarrow> MediaItem" where
  "shot i ts h t =
     example_item i Image (example_file (i @ ''.jpg'') 800000 None) ts (Some h)
       (Some \<lparr>sharpness = t, exposure = t, resolution = t, total_score = t, details = []\<rparr>)"

definition example_batch :: "MediaItem list" where
  "example_batch =
     [shot ''c'' 3000 ''1100000000000000000000000000000000000000000000000000000000000000'' 0.5,
      shot ''e'' 5000 ''0111111111111111111111111111111111111111111111111111111111111111'' 0.6,
      shot ''a'' 1000 ''0000000000000000000000000000000000000000000000000000000000000000'' 0.7,
      shot ''d'' 4000 ''1111111111111111111111111111111111111111111111111111111111111111'' 0.8,
      shot ''b'' 2000 ''1000000000000000000000000000000000000000000000000000000000000000'' 0.9]"

text \<open>An image without a stored hash whose file does not decode.\<close>

definition broken_item :: MediaItem where
  "broken_item =
     example_item ''x'' Image (example_file ''broken.jpg'' 800000 None) 6000 None None"

subsection \<open>Auxiliary notions of the proofs\<close>

text \<open>
  The invariant of the inner loop, for the set \<open>U\<close> of the ids in the groups emitted
  so far: the group under construction is not empty, its members are items of the
  list with pairwise different ids, all of them visited and none of them in \<open>U\<close>.
\<close>

definition window_inv ::
  "MediaItem list \<Rightarrow> string set \<Rightarrow> MediaItem list \<times> string set \<Rightarrow> bool"
where
  "window_inv P U st =
     (case st of
        (grp, V) \<Rightarrow>
          grp \<noteq> [] \<and> set grp \<subseteq> set P \<and> distinct (map item_id grp)
          \<and> item_id ` set grp \<subseteq> V \<and> item_id ` set grp \<inter> U = {} \<and> U \<subseteq> V)"

text \<open>The ids of the members of a list of groups, group after group.\<close>

definition group_ids :: "DuplicateGroup list \<Rightarrow> string list" where
  "group_ids gs = concat (map (\<lambda>g. map item_id (items g)) gs)"

text \<open>
  What the code establishes for a group when it emits it: at least two members, in
  descending order of \<open>quality_total\<close>, each with a quality; the best is the first
  and the gap is taken between the first two.
\<close>

definition emitted_group :: "DuplicateGroup \<Rightarrow> bool" where
  "emitted_group g =
     (2 \<le> length (items g)
      \<and> sorted (rev (map quality_total (items g)))
      \<and> list_all (\<lambda>m. quality m \<noteq> None) (items g)
      \<and> bestItemId g = item_id (items g ! 0)
      \<and> scoreGap g = quality_total (items g ! 0) - quality_total (items g ! 1))"

text \<open>The invariant of the outer loop.\<close>

definition group_inv :: "DuplicateGroup list \<times> string set \<Rightarrow> bool" where
  "group_inv st =
     (case st of
        (gs, V) \<Rightarrow>
          distinct (group_ids gs) \<and> set (group_ids gs) \<subseteq> V \<and> list_all emitted_group gs)"

text \<open>An item whose processing has ended with an analysis.\<close>

definition analysed :: "MediaItem \<Rightarrow> bool" where
  "analysed it \<longleftrightarrow> status it = Done \<and> analysis it \<noteq> None"

text \<open>The positions from \<open>i\<close> on at which two hashes differ.\<close>

definition differing :: "string \<Rightarrow> string \<Rightarrow> nat \<Rightarrow> nat set" where
  "differing a b i = {k. i \<le> k \<and> k < length a \<and> char_at a k \<noteq> char_at b k}"

section \<open>Properties\<close>

subsection \<open>Hamming distance\<close>

lemma finite_differing: "finite (differing a b i)"
  by (simp add: differing_def)

lemma differing_step:
  assumes "i < length a"
  shows "differing a b i =
           (if char_at a i \<noteq> char_at b i then insert i (differing a b (i + 1))
            else differing a b (i + 1))"
proof -
  have "\<And>k. i \<le> k \<longleftrightarrow> k = i \<or> i + 1 \<le> k"
    by auto
  with assms show ?thesis
    unfolding differing_def by auto
qed

lemma differing_done: "\<not> i < length a \<Longrightarrow> differing a b i = {}"
  by (auto simp: differing_def)

lemma hamming_loop_card: "hamming_loop a b i d = d + card (differing a b i)"
proof (induction a b i d rule: hamming_loop.induct)
  case (1 hash1 hash2 i dst)
  show ?case
  proof (cases "i < length hash1")
    case True
    have notin: "i \<notin> differing hash1 hash2 (Suc i)"
      by (simp add: differing_def)
    from True "1.IH" [OF True] show ?thesis
      by (subst hamming_loop.simps)
         (simp add: differing_step [OF True] finite_differing notin)
  next
    case False
    then show ?thesis
      by (subst hamming_loop.simps) (simp add: differing_done)
  qed
qed

lemma hamming_card: "calculateHammingDistance a b = card (differing a b 0)"
  by (simp add: calculateHammingDistance_def hamming_loop_card)

lemma differing_sym: "length a = length b \<Longrightarrow> differing a b i = differing b a i"
  by (auto simp: differing_def)

lemma differing_empty_iff:
  assumes "length a = length b"
  shows "differing a b 0 = {} \<longleftrightarrow> a = b"
proof
  assume e: "differing a b 0 = {}"
  have "a ! k = b ! k" if "k < length a" for k
  proof -
    from e that have "char_at a k = char_at b k"
      by (auto simp: differing_def)
    with that assms show ?thesis
      by (simp add: char_at_def)
  qed
  with assms show "a = b"
    by (simp add: list_eq_iff_nth_eq)
next
  assume "a = b"
  then show "differing a b 0 = {}"
    by (simp add: differing_def)
qed

text \<open>
  C9. For hashes \<open>a\<close> and \<open>b\<close> of equal length (in particular two 64-bit hashes),
  \<open>calculateHammingDistance\<close> is symmetric, it is 0 exactly when \<open>a = b\<close>, and the
  distance of a hash to itself is 0.
\<close>

theorem hamming_symmetric_zero_iff_equal:
  assumes "length a = length b"
  shows "calculateHammingDistance a b = calculateHammingDistance b a
         \<and> (calculateHammingDistance a b = 0 \<longleftrightarrow> a = b)
         \<and> calculateHammingDistance a a = 0"
proof -
  have "calculateHammingDistance a b = calculateHammingDistance b a"
    by (simp add: hamming_card differing_sym [OF assms])
  moreover have "calculateHammingDistance a b = 0 \<longleftrightarrow> a = b"
    by (simp add: hamming_card finite_differing differing_empty_iff [OF assms])
  moreover have "calculateHammingDistance a a = 0"
    by (simp add: hamming_card differing_def)
  ultimately show ?thesis
    by blast
qed

theorem hamming_symmetric_zero_iff_equal_witness:
  "length ''0101010110101010010101011010101001010101101010100101010110101010''
     = length ''0101010110101010010101011010101001010101101010100101010110101111''
   \<and> calculateHammingDistance
         ''0101010110101010010101011010101001010101101010100101010110101010''
         ''0101010110101010010101011010101001010101101010100101010110101111''
       = calculateHammingDistance
         ''0101010110101010010101011010101001010101101010100101010110101111''
         ''0101010110101010010101011010101001010101101010100101010110101010''
   \<and> (calculateHammingDistance
         ''0101010110101010010101011010101001010101101010100101010110101010''
         ''0101010110101010010101011010101001010101101010100101010110101111'' = 0
        \<longleftrightarrow> ''0101010110101010010101011010101001010101101010100101010110101010''
          = ''0101010110101010010101011010101001010101101010100101010110101111'')
   \<and> calculateHammingDistance
         ''0101010110101010010101011010101001010101101010100101010110101010''
         ''0101010110101010010101011010101001010101101010100101010110101010'' = 0"
  using hamming_symmetric_zero_iff_equal
    [of "''0101010110101010010101011010101001010101101010100101010110101010''"
        "''0101010110101010010101011010101001010101101010100101010110101111''"]
  by simp

subsection \<open>The pixel buffer\<close>

text \<open>
  The buffer that \<open>getImageData\<close> gives has four bytes for each pixel of a rectangle
  that is not empty. So the average in \<open>calculateExposureScore\<close> divides by a positive
  number, and every index that the service reads is in range: \<open>i .. i + 6\<close> in the
  sharpness loop (where \<open>i\<close> is a multiple of 16 and \<open>i + 4\<close> is in range), \<open>i .. i + 2\<close>
  in the exposure loop (\<open>i\<close> a multiple of 4), and up to \<open>iRight + 2\<close> in the hash,
  which has 64 characters.
\<close>

lemma getImageData_length:
  "getImageData br ctx w h = Inr d \<Longrightarrow> length d = 4 * w * h"
  by (auto simp: getImageData_def split: if_splits)

lemma getImageData_positive:
  "getImageData br ctx w h = Inr d \<Longrightarrow> 0 < w * h"
  by (auto simp: getImageData_def split: if_splits)

lemma sharpness_reads_in_range:
  assumes "getImageData br ctx w h = Inr d" and "16 dvd i" and "i + 4 < length d"
  shows "i + 6 < length d"
proof -
  from assms(1) have "length d = 4 * (w * h)"
    by (simp add: getImageData_length)
  with assms(2,3) show ?thesis by presburger
qed

lemma exposure_reads_in_range:
  assumes "getImageData br ctx w h = Inr d" and "4 dvd i" and "i < length d"
  shows "i + 2 < length d"
proof -
  from assms(1) have "length d = 4 * (w * h)"
    by (simp add: getImageData_length)
  with assms(2,3) show ?thesis by presburger
qed

lemma dhash_reads_in_range:
  assumes "getImageData br ctx 9 8 = Inr d" and "y < 8" and "x < 8"
  shows "(y * 9 + x + 1) * 4 + 2 < length d"
  using getImageData_length [OF assms(1)] assms(2,3) by simp

lemma computeDHash_length:
  "computeDHash br ctx img = Inr h \<Longrightarrow> length h = 64"
  by (auto simp: computeDHash_def length_concat comp_def sum_list_triv split: sum.splits)

subsection \<open>The sharpness of the example images\<close>

text \<open>
  When every sampled pair of pixels differs by the same amount \<open>v\<close>, the mean of the
  differences is \<open>v\<close>: 255 on the checkerboard and 0 on the gray card.
\<close>

lemma sharpness_loop_uniform:
  "\<forall>k. 16 dvd k \<and> k + 4 < length d \<longrightarrow> \<bar>gray d k - gray d (k + 4)\<bar> = v
     \<Longrightarrow> 16 dvd i \<Longrightarrow> sharpness_loop d i sm cnt = (sm', cnt')
     \<Longrightarrow> cnt \<le> cnt' \<and> sm' - sm = v * real (cnt' - cnt)"
proof (induction d i sm cnt rule: sharpness_loop.induct)
  case (1 d i sm cnt)
  show ?case
  proof (cases "i < length d")
    case False
    with "1.prems" show ?thesis
      by (simp add: sharpness_loop.simps [of d i])
  next
    case True
    have dvd: "16 dvd i + 16"
      using "1.prems"(2) by simp
    show ?thesis
    proof (cases "i + 4 < length d")
      case inner: True
      from "1.prems"(3) True inner
      have run: "sharpness_loop d (i + 16) (sm + \<bar>gray d i - gray d (i + 4)\<bar>) (cnt + 1)
                   = (sm', cnt')"
        by (simp add: sharpness_loop.simps [of d i])
      from "1.IH"(1) [OF True inner "1.prems"(1) dvd run]
      have "cnt + 1 \<le> cnt'"
        and "sm' - (sm + \<bar>gray d i - gray d (i + 4)\<bar>) = v * real (cnt' - (cnt + 1))"
        by simp_all
      moreover have "\<bar>gray d i - gray d (i + 4)\<bar> = v"
        using "1.prems"(1,2) inner by blast
      ultimately show ?thesis
        by (simp add: algebra_simps of_nat_diff)
    next
      case inner: False
      from "1.prems"(3) True inner
      have run: "sharpness_loop d (i + 16) sm cnt = (sm', cnt')"
        by (simp add: sharpness_loop.simps [of d i])
      from "1.IH"(2) [OF True inner "1.prems"(1) dvd run] show ?thesis .
    qed
  qed
qed

lemma sharpness_loop_first:
  assumes "4 < length d"
  shows "sharpness_loop d 0 0 0 = sharpness_loop d 16 \<bar>gray d 0 - gray d 4\<bar> 1"
  by (subst sharpness_loop.simps) (use assms in auto)

lemma calculateSharpness_uniform:
  assumes d: "getImageData br ctx w h = Inr d"
    and u: "\<forall>k. 16 dvd k \<and> k + 4 < length d \<longrightarrow> \<bar>gray d k - gray d (k + 4)\<bar> = v"
    and len: "4 < length d"
  shows "calculateSharpness br ctx w h = v"
proof -
  obtain sm cnt where r: "sharpness_loop d 0 0 0 = (sm, cnt)"
    by fastforce
  then have r16: "sharpness_loop d 16 \<bar>gray d 0 - gray d 4\<bar> 1 = (sm, cnt)"
    by (simp add: sharpness_loop_first [OF len])
  have "1 \<le> cnt"
    using sharpness_loop_uniform [OF u _ r16] by simp
  moreover have "sm - 0 = v * real (cnt - 0)"
    using sharpness_loop_uniform [OF u _ r] by simp
  ultimately show ?thesis
    using d r by (simp add: calculateSharpness_def)
qed

lemma gray_map:
  assumes "k + 2 < n"
  shows "gray (map f [0..<n]) k
           = (real (unat (f k)) + real (unat (f (k + 1))) + real (unat (f (k + 2)))) / 3"
  using assms by (simp add: gray_def u8_def)

lemma checkerboard_sharpness:
  "calculateSharpness example_browser (drawImage blank_canvas checkerboard 320 240) 320 240
     = 255"
proof (rule calculateSharpness_uniform)
  let ?f = "resampled checkerboard 320 240"
  let ?d = "map ?f [0..<4 * 320 * 240]"
  show "getImageData example_browser (drawImage blank_canvas checkerboard 320 240) 320 240
          = Inr ?d"
    by (simp add: getImageData_def example_browser_def drawImage_def)
  show "4 < length ?d" by simp
  show "\<forall>k. 16 dvd k \<and> k + 4 < length ?d \<longrightarrow> \<bar>gray ?d k - gray ?d (k + 4)\<bar> = 255"
  proof (intro allI impI)
    fix k :: nat
    assume a: "16 dvd k \<and> k + 4 < length ?d"
    then obtain m where m: "k = 16 * m" by (auto simp: dvd_def)
    from a have lt: "k + 2 < 4 * 320 * 240" "k + 4 + 2 < 4 * 320 * 240"
      unfolding m by simp_all
    have black: "?f j = 0" if "j div 4 = 4 * m" for j
      using that by (simp add: checkerboard_def)
    have white: "?f j = 255" if "j div 4 = 4 * m + 1" for j
      using that by (simp add: checkerboard_def)
    have "k div 4 = 4 * m" "(k + 1) div 4 = 4 * m" "(k + 2) div 4 = 4 * m"
      unfolding m by presburger+
    then have g0: "gray ?d k = 0"
      unfolding gray_map [OF lt(1)] by (simp only: black) simp
    have "(k + 4) div 4 = 4 * m + 1" "(k + 4 + 1) div 4 = 4 * m + 1"
      "(k + 4 + 2) div 4 = 4 * m + 1"
      unfolding m by presburger+
    then have g1: "gray ?d (k + 4) = 255"
      unfolding gray_map [OF lt(2)] by (simp only: white) simp
    show "\<bar>gray ?d k - gray ?d (k + 4)\<bar> = 255"
      unfolding g0 g1 by simp
  qed
qed

lemma gray_card_sharpness:
  "calculateSharpness example_browser (drawImage blank_canvas gray_card 320 240) 320 240 = 0"
proof (rule calculateSharpness_uniform)
  let ?f = "resampled gray_card 320 240"
  let ?d = "map ?f [0..<4 * 320 * 240]"
  show "getImageData example_browser (drawImage blank_canvas gray_card 320 240) 320 240
          = Inr ?d"
    by (simp add: getImageData_def example_browser_def drawImage_def)
  show "4 < length ?d" by simp
  show "\<forall>k. 16 dvd k \<and> k + 4 < length ?d \<longrightarrow> \<bar>gray ?d k - gray ?d (k + 4)\<bar> = 0"
  proof (intro allI impI)
    fix k :: nat
    assume a: "16 dvd k \<and> k + 4 < length ?d"
    then have lt: "k + 2 < 4 * 320 * 240" "k + 4 + 2 < 4 * 320 * 240"
      by (auto simp: dvd_def)
    have mid: "?f j = 128" for j
      by (simp add: gray_card_def)
    have g0: "gray ?d k = 128"
      unfolding gray_map [OF lt(1)] by (simp only: mid) simp
    have g1: "gray ?d (k + 4) = 128"
      unfolding gray_map [OF lt(2)] by (simp only: mid) simp
    show "\<bar>gray ?d k - gray ?d (k + 4)\<bar> = 0"
      unfolding g0 g1 by simp
  qed
qed

lemma example_heights:
  "analysis_height checkerboard = 240" "analysis_height gray_card = 240"
  "analysis_height strip = 0"
  by (simp_all add: analysis_height_def checkerboard_def gray_card_def strip_def)

lemma example_names:
  "string_includes (toLowerCase ''IMG_screenshot_01.png'') ''screenshot''"
  "\<not> string_includes (toLowerCase ''photo.jpg'') ''screenshot''"
  "\<not> string_includes (toLowerCase ''photo.jpg'') ''screen_recording''"
  "string_includes (toLowerCase ''Screen_Capture.mov'') ''screen''"
  by (simp_all add: toLowerCase_def toLowerCase_char_def)

subsection \<open>Classification\<close>

text \<open>
  C1. \<open>analyzeImage\<close> applies its rules in a fixed order and the first that matches
  decides. With \<open>nm\<close> the lower-cased file name: if \<open>nm\<close> contains \<open>screenshot\<close> or
  \<open>screen_recording\<close> the result is Discard, 98, "Filename indicates a screenshot";
  otherwise, if the file has fewer than \<open>150 \<cdot> 1024\<close> bytes, it is Discard, 85,
  "Low resolution (small file size)"; otherwise, once the image is decoded and a canvas
  context obtained, if the ratio of width to height is below 0.48 or above 2.2 it is
  Discard, 80, "Unusual aspect ratio"; otherwise, if the raw sharpness of the 320 pixel
  wide downsample is below 2.5, it is Discard, 75, "Image appears blurry"; otherwise it
  is Keep, 65, "Standard image resolution".
\<close>

theorem analyzeImage_precedence:
  assumes "nm = toLowerCase (file_name f)"
    and "ratio = js_divide (width img) (height img)"
    and "sharp = calculateSharpness br (drawImage canvas img 320 (analysis_height img))
                   320 (analysis_height img)"
  shows
    "(string_includes nm ''screenshot'' \<or> string_includes nm ''screen_recording''
        \<longrightarrow> analyzeImage br f =
              Inr \<lparr>category = DISCARD, confidence = 98,
                   reason = ''Filename indicates a screenshot'', tags = [''Screenshot'']\<rparr>)
     \<and> (\<not> (string_includes nm ''screenshot'' \<or> string_includes nm ''screen_recording'')
        \<longrightarrow>
          (file_size f < 150 * 1024
             \<longrightarrow> analyzeImage br f =
                   Inr \<lparr>category = DISCARD, confidence = 85,
                        reason = ''Low resolution (small file size)'', tags = [''Small'']\<rparr>)
          \<and> (\<not> file_size f < 150 * 1024
               \<and> file_image f = Some img \<and> getContext br = Some canvas
             \<longrightarrow>
               (js_less ratio 0.48 \<or> js_greater ratio 2.2
                  \<longrightarrow> analyzeImage br f =
                        Inr \<lparr>category = DISCARD, confidence = 80,
                             reason = ''Unusual aspect ratio'', tags = [''Aspect'']\<rparr>)
               \<and> (\<not> (js_less ratio 0.48 \<or> js_greater ratio 2.2)
                  \<longrightarrow>
                    (sharp < 2.5
                       \<longrightarrow> analyzeImage br f =
                             Inr \<lparr>category = DISCARD, confidence = 75,
                                  reason = ''Image appears blurry'', tags = [''Blurry'']\<rparr>)
                    \<and> (\<not> sharp < 2.5
                       \<longrightarrow> analyzeImage br f =
                             Inr \<lparr>category = KEEP, confidence = 65,
                                  reason = ''Standard image resolution'',
                                  tags = [''Image'']\<rparr>))))"
proof -
  have kb: "real (file_size f) / 1024 < 150 \<longleftrightarrow> file_size f < 150 * 1024"
    by (simp add: divide_less_eq)
  show ?thesis
    unfolding assms
    by (simp add: analyzeImage_def analyzeImage_try_def loadImage_def Let_def kb
             del: of_nat_less_iff)
qed

theorem analyzeImage_precedence_witness:
  "string_includes (toLowerCase ''IMG_screenshot_01.png'') ''screenshot''
   \<and> analyzeImage example_browser (example_file ''IMG_screenshot_01.png'' 500000 None) =
     Inr \<lparr>category = DISCARD, confidence = 98,
          reason = ''Filename indicates a screenshot'', tags = [''Screenshot'']\<rparr>
   \<and> \<not> string_includes (toLowerCase ''photo.jpg'') ''screenshot''
   \<and> \<not> string_includes (toLowerCase ''photo.jpg'') ''screen_recording''
   \<and> (80000 :: nat) < 150 * 1024
   \<and> analyzeImage example_browser (example_file ''photo.jpg'' 80000 None) =
     Inr \<lparr>category = DISCARD, confidence = 85,
          reason = ''Low resolution (small file size)'', tags = [''Small'']\<rparr>
   \<and> \<not> (800000 :: nat) < 150 * 1024
   \<and> getContext example_browser = Some blank_canvas
   \<and> js_greater (js_divide (width strip) (height strip)) 2.2
   \<and> analyzeImage example_browser (example_file ''photo.jpg'' 800000 (Some strip)) =
     Inr \<lparr>category = DISCARD, confidence = 80,
          reason = ''Unusual aspect ratio'', tags = [''Aspect'']\<rparr>
   \<and> \<not> js_less (js_divide (width gray_card) (height gray_card)) 0.48
   \<and> \<not> js_greater (js_divide (width gray_card) (height gray_card)) 2.2
   \<and> calculateSharpness example_browser
         (drawImage blank_canvas gray_card 320 (analysis_height gray_card))
         320 (analysis_height gray_card) < 2.5
   \<and> analyzeImage example_browser (example_file ''photo.jpg'' 800000 (Some gray_card)) =
     Inr \<lparr>category = DISCARD, confidence = 75,
          reason = ''Image appears blurry'', tags = [''Blurry'']\<rparr>
   \<and> \<not> js_less (js_divide (width checkerboard) (height checkerboard)) 0.48
   \<and> \<not> js_greater (js_divide (width checkerboard) (height checkerboard)) 2.2
   \<and> \<not> calculateSharpness example_browser
           (drawImage blank_canvas checkerboard 320 (analysis_height checkerboard))
           320 (analysis_height checkerboard) < 2.5
   \<and> analyzeImage example_browser (example_file ''photo.jpg'' 800000 (Some checkerboard)) =
     Inr \<lparr>category = KEEP, confidence = 65,
          reason = ''Standard image resolution'', tags = [''Image'']\<rparr>"
proof -
  have ctx: "getContext example_browser = Some blank_canvas"
    by (simp add: getContext_def example_browser_def)
  have r1: "js_greater (js_divide (width strip) (height strip)) 2.2"
    by (simp add: js_divide_def strip_def)
  have r2: "\<not> js_less (js_divide (width gray_card) (height gray_card)) 0.48"
    "\<not> js_greater (js_divide (width gray_card) (height gray_card)) 2.2"
    "\<not> js_less (js_divide (width checkerboard) (height checkerboard)) 0.48"
    "\<not> js_greater (js_divide (width checkerboard) (height checkerboard)) 2.2"
    by (simp_all add: js_divide_def gray_card_def checkerboard_def)
  show ?thesis
    using r1 r2
      analyzeImage_precedence [where br = example_browser
        and f = "example_file ''IMG_screenshot_01.png'' 500000 None", OF refl refl refl]
      analyzeImage_precedence [where br = example_browser
        and f = "example_file ''photo.jpg'' 80000 None", OF refl refl refl]
      analyzeImage_precedence [where br = example_browser and img = strip
        and canvas = blank_canvas
        and f = "example_file ''photo.jpg'' 800000 (Some strip)", OF refl refl refl]
      analyzeImage_precedence [where br = example_browser and img = gray_card
        and canvas = blank_canvas
        and f = "example_file ''photo.jpg'' 800000 (Some gray_card)", OF refl refl refl]
      analyzeImage_precedence [where br = example_browser and img = checkerboard
        and canvas = blank_canvas
        and f = "example_file ''photo.jpg'' 800000 (Some checkerboard)", OF refl refl refl]
    by (simp add: example_file_def example_names ctx example_heights
          checkerboard_sharpness gray_card_sharpness)
qed

text \<open>The single rounds of a batch: what one item does to the list of items.\<close>

lemma analyzeImage_resolves: "\<exists>r. analyzeImage br f = Inr r"
  by (simp add: analyzeImage_def split: sum.split)

lemma process_item_length: "length (process_item br x st) = length st"
  by (simp add: process_item_def update_item_def Let_def split: sum.split)

lemma process_item_nth:
  assumes "k < length st"
  shows "item_id (process_item br x st ! k) = item_id (st ! k)"
    and "item_id (st ! k) = item_id x \<Longrightarrow> analysed (process_item br x st ! k)"
    and "item_id (st ! k) \<noteq> item_id x \<Longrightarrow> process_item br x st ! k = st ! k"
proof -
  obtain r where r: "analyzeImage br (item_file x) = Inr r"
    using analyzeImage_resolves by blast
  from assms r show "item_id (process_item br x st ! k) = item_id (st ! k)"
    by (simp add: process_item_def update_item_def Let_def)
  from assms r show "analysed (process_item br x st ! k)" if "item_id (st ! k) = item_id x"
    using that by (simp add: process_item_def update_item_def Let_def analysed_def)
  from assms r show "process_item br x st ! k = st ! k" if "item_id (st ! k) \<noteq> item_id x"
    using that by (simp add: process_item_def update_item_def Let_def)
qed

lemma fold_process_item:
  assumes "k < length st"
  shows "length (fold (process_item br) xs st) = length st
         \<and> item_id (fold (process_item br) xs st ! k) = item_id (st ! k)
         \<and> (item_id (st ! k) \<in> item_id ` set xs \<or> analysed (st ! k)
              \<longrightarrow> analysed (fold (process_item br) xs st ! k))"
  using assms
proof (induction xs arbitrary: st)
  case Nil
  then show ?case by simp
next
  case (Cons x xs)
  let ?st = "process_item br x st"
  have k: "k < length ?st"
    using Cons.prems by (simp add: process_item_length)
  note ih = Cons.IH [OF k]
  have id: "item_id (?st ! k) = item_id (st ! k)"
    by (rule process_item_nth(1) [OF Cons.prems])
  have keep: "analysed (?st ! k)" if "analysed (st ! k)"
  proof (cases "item_id (st ! k) = item_id x")
    case True
    then show ?thesis by (rule process_item_nth(2) [OF Cons.prems])
  next
    case False
    with that show ?thesis by (simp add: process_item_nth(3) [OF Cons.prems])
  qed
  have here: "analysed (?st ! k)" if "item_id (st ! k) = item_id x"
    using that by (rule process_item_nth(2) [OF Cons.prems])
  from ih id keep here show ?case
    by (auto simp: process_item_length)
qed

lemma startProcessing_all_analysed:
  assumes "it \<in> set (startProcessing br its)"
  shows "analysed it"
proof -
  from assms obtain k where k: "k < length (startProcessing br its)"
    and it: "it = startProcessing br its ! k"
    by (auto simp: in_set_conv_nth)
  have len: "length (startProcessing br its) = length its"
  proof (cases its)
    case Nil
    then show ?thesis by (simp add: startProcessing_def)
  next
    case (Cons a as)
    then have "0 < length its" by simp
    from fold_process_item [OF this, of br its] show ?thesis
      by (simp add: startProcessing_def)
  qed
  with k have k': "k < length its" by simp
  from fold_process_item [OF k', of br its] k' it show ?thesis
    by (simp add: startProcessing_def)
qed

text \<open>
  C3. When no metadata rule applies and the decoding of the image fails (\<open>loadImage\<close>
  rejects, or no canvas context is obtained), \<open>analyzeImage\<close> resolves with exactly
  Unsure, confidence 0, "Analysis failed" and the tag "Error". The promise of
  \<open>analyzeImage\<close> never rejects, and \<open>startProcessing\<close> leaves every record of the
  batch done with an analysis.
\<close>

theorem analyzeImage_decode_failure:
  assumes "nm = toLowerCase (file_name f)"
    and "\<not> string_includes nm ''screenshot''"
    and "\<not> string_includes nm ''screen_recording''"
    and "\<not> file_size f < 150 * 1024"
    and "loadImage f = Inl LoadError \<or> getContext br = None"
  shows "analyzeImage br f =
           Inr \<lparr>category = UNSURE, confidence = 0, reason = ''Analysis failed'',
                tags = [''Error'']\<rparr>
         \<and> (\<forall>br' f'. \<exists>r. analyzeImage br' f' = Inr r)
         \<and> (\<forall>it \<in> set (startProcessing br its). status it = Done \<and> analysis it \<noteq> None)"
proof -
  have kb: "real (file_size f) / 1024 < 150 \<longleftrightarrow> file_size f < 150 * 1024"
    by (simp add: divide_less_eq)
  have "analyzeImage br f =
           Inr \<lparr>category = UNSURE, confidence = 0, reason = ''Analysis failed'',
                tags = [''Error'']\<rparr>"
    using assms
    by (auto simp: analyzeImage_def analyzeImage_try_def Let_def kb
             split: sum.split option.split)
  moreover have "\<forall>br' f'. \<exists>r. analyzeImage br' f' = Inr r"
    by (simp add: analyzeImage_resolves)
  moreover have "\<forall>it \<in> set (startProcessing br its). status it = Done \<and> analysis it \<noteq> None"
    using startProcessing_all_analysed by (auto simp: analysed_def)
  ultimately show ?thesis by blast
qed

theorem analyzeImage_decode_failure_witness:
  "\<not> string_includes (toLowerCase ''photo.jpg'') ''screenshot''
   \<and> \<not> string_includes (toLowerCase ''photo.jpg'') ''screen_recording''
   \<and> \<not> (800000::nat) < 150 * 1024
   \<and> loadImage (example_file ''photo.jpg'' 800000 None) = Inl LoadError
   \<and> analyzeImage example_browser (example_file ''photo.jpg'' 800000 None) =
         Inr \<lparr>category = UNSURE, confidence = 0, reason = ''Analysis failed'',
              tags = [''Error'']\<rparr>
   \<and> list_all (\<lambda>it. status it = Done \<and> analysis it \<noteq> None)
         (startProcessing example_browser
            [example_item ''a'' Image (example_file ''photo.jpg'' 800000 None) 0 None None,
             example_item ''b'' Image (example_file ''IMG_screenshot_01.png'' 500000 None) 1
               None None])"
  using analyzeImage_decode_failure [where br = example_browser
    and f = "example_file ''photo.jpg'' 800000 None"
    and its = "[example_item ''a'' Image (example_file ''photo.jpg'' 800000 None) 0 None None,
                example_item ''b'' Image
                  (example_file ''IMG_screenshot_01.png'' 500000 None) 1 None None]",
    OF refl]
  by (simp add: example_names example_file_def loadImage_def list_all_iff)

text \<open>
  A failing \<open>getImageData\<close> is not a failure of the decoding: \<open>calculateSharpness\<close>
  catches it and gives 0, so the image is discarded, for its aspect ratio or as blurry.
\<close>

lemma analyzeImage_readback_failure:
  assumes "nm = toLowerCase (file_name f)"
    and "\<not> string_includes nm ''screenshot''"
    and "\<not> string_includes nm ''screen_recording''"
    and "\<not> file_size f < 150 * 1024"
    and "file_image f = Some img" and "getContext br = Some canvas"
    and "getImageData br (drawImage canvas img 320 (analysis_height img))
           320 (analysis_height img) = Inl e"
  shows "analyzeImage br f =
           Inr \<lparr>category = DISCARD, confidence = 80, reason = ''Unusual aspect ratio'',
                tags = [''Aspect'']\<rparr>
         \<or> analyzeImage br f =
           Inr \<lparr>category = DISCARD, confidence = 75, reason = ''Image appears blurry'',
                tags = [''Blurry'']\<rparr>"
proof -
  have kb: "real (file_size f) / 1024 < 150 \<longleftrightarrow> file_size f < 150 * 1024"
    by (simp add: divide_less_eq)
  from assms show ?thesis
    by (simp add: analyzeImage_def analyzeImage_try_def loadImage_def Let_def kb
          calculateSharpness_def)
qed

text \<open>
  C8. A video record is classified from its name alone, whatever its file holds: if the
  lower-cased name contains \<open>screen\<close> the analysis stored for it is Discard, 85,
  "Screen Recording Detected", otherwise Keep, 85, "Video content".
\<close>

theorem video_classification:
  assumes "item_type item = Video"
  shows "process_item br item prev =
           update_item (item_id item)
             (\<lambda>it. it\<lparr>status := Done,
                       analysis := Some
                         (if string_includes (toLowerCase (name item)) ''screen''
                          then \<lparr>category = DISCARD, confidence = 85,
                                reason = ''Screen Recording Detected'', tags = [''Video'']\<rparr>
                          else \<lparr>category = KEEP, confidence = 85,
                                reason = ''Video content'', tags = [''Video'']\<rparr>)\<rparr>)
             prev"
  using assms
  by (simp add: process_item_def classifyVideo_def update_item_def Let_def)

theorem video_classification_witness:
  "item_type (example_item ''v'' Video (example_file ''Screen_Capture.mov'' 5000000 None) 0
                None None) = Video
   \<and> process_item example_browser
         (example_item ''v'' Video (example_file ''Screen_Capture.mov'' 5000000 None) 0
            None None)
         [example_item ''v'' Video (example_file ''Screen_Capture.mov'' 5000000 None) 0
            None None]
       = [(example_item ''v'' Video (example_file ''Screen_Capture.mov'' 5000000 None) 0
             None None)
            \<lparr>status := Done,
             analysis := Some \<lparr>category = DISCARD, confidence = 85,
                               reason = ''Screen Recording Detected'', tags = [''Video'']\<rparr>\<rparr>]"
proof -
  have v: "item_type (example_item ''v'' Video (example_file ''Screen_Capture.mov'' 5000000 None)
             0 None None) = Video"
    by (simp add: example_item_def)
  have n: "string_includes
             (toLowerCase (name (example_item ''v'' Video
                (example_file ''Screen_Capture.mov'' 5000000 None) 0 None None))) ''screen''"
    by (simp add: example_item_def example_file_def example_names)
  show ?thesis
    using v n video_classification [OF v, of example_browser
      "[example_item ''v'' Video (example_file ''Screen_Capture.mov'' 5000000 None) 0
          None None]"]
    by (simp add: update_item_def)
qed

subsection \<open>Quality score\<close>

lemma exposure_score_bounds:
  "0 \<le> calculateExposureScore br ctx w h \<and> calculateExposureScore br ctx w h \<le> 1"
  by (simp add: calculateExposureScore_def Let_def split: sum.split)

text \<open>
  C4. For every file that decodes (an image is loaded and a canvas context obtained),
  \<open>calculateImageQuality\<close> resolves with the score that its \<^verbatim>\<open>try\<close> block computes,
  and the sharpness, exposure, resolution and total of that score are all in \<open>[0, 1]\<close>.
\<close>

theorem quality_fields_in_unit_interval:
  assumes "file_image f = Some img" and "getContext br = Some canvas"
  shows "\<exists>q. calculateImageQuality_try br f = Inr q \<and> calculateImageQuality br f = Inr q
           \<and> 0 \<le> sharpness q \<and> sharpness q \<le> 1
           \<and> 0 \<le> exposure q \<and> exposure q \<le> 1
           \<and> 0 \<le> resolution q \<and> resolution q \<le> 1
           \<and> 0 \<le> total_score q \<and> total_score q \<le> 1"
proof -
  let ?ctx = "drawImage canvas img 320 (analysis_height img)"
  define s where "s = min (max ((calculateSharpness br ?ctx 320 (analysis_height img) - 2) / 6) 0) 1"
  define e where "e = calculateExposureScore br ?ctx 320 (analysis_height img)"
  define r where "r = min (max ((real (width img * height img) / 1000000 - 2) / 10) 0) (1::real)"
  define q where "q = \<lparr>sharpness = s, exposure = e, resolution = r,
    total_score = s * 0.6 + e * 0.2 + r * 0.2,
    details = quality_details s e (real (width img * height img) / 1000000)\<rparr>"
  have tr: "calculateImageQuality_try br f = Inr q"
    using assms
    by (simp add: calculateImageQuality_try_def loadImage_def Let_def q_def s_def e_def r_def)
  from tr have res: "calculateImageQuality br f = Inr q"
    by (simp add: calculateImageQuality_def)
  have s: "0 \<le> s" "s \<le> 1" by (simp_all add: s_def)
  have e: "0 \<le> e" "e \<le> 1" using exposure_score_bounds by (simp_all add: e_def)
  have r: "0 \<le> r" "r \<le> 1" by (simp_all add: r_def)
  have t0: "0 \<le> s * 0.6 + e * 0.2 + r * 0.2"
    using s e r by simp
  have t1: "s * 0.6 + e * 0.2 + r * 0.2 \<le> 1"
    using s e r by simp
  from tr res s e r t0 t1 show ?thesis
    by (intro exI [of _ q]) (simp add: q_def)
qed

theorem quality_fields_in_unit_interval_witness:
  "file_image (example_file ''photo.jpg'' 800000 (Some checkerboard)) = Some checkerboard
   \<and> getContext example_browser = Some blank_canvas
   \<and> (\<exists>q. calculateImageQuality example_browser
               (example_file ''photo.jpg'' 800000 (Some checkerboard)) = Inr q
            \<and> 0 \<le> sharpness q \<and> sharpness q \<le> 1
            \<and> 0 \<le> exposure q \<and> exposure q \<le> 1
            \<and> 0 \<le> resolution q \<and> resolution q \<le> 1
            \<and> 0 \<le> total_score q \<and> total_score q \<le> 1)"
proof -
  have a: "file_image (example_file ''photo.jpg'' 800000 (Some checkerboard)) = Some checkerboard"
    by (simp add: example_file_def)
  have b: "getContext example_browser = Some blank_canvas"
    by (simp add: getContext_def example_browser_def)
  from quality_fields_in_unit_interval [OF a b] a b show ?thesis
    by blast
qed

text \<open>
  C6, as the claim states it, fails when only the buffer access fails: on the strip of
  1000 by 1 pixels the image decodes, the analysis canvas has height 0, \<open>getImageData\<close>
  throws, and the score has exposure \<open>1/2\<close>, total \<open>1/10\<close> and two tags.
\<close>

theorem quality_buffer_failure_counterexample:
  "file_image (example_file ''photo.jpg'' 800000 (Some strip)) = Some strip
   \<and> getContext example_browser = Some blank_canvas
   \<and> getImageData example_browser
         (drawImage blank_canvas strip 320 (analysis_height strip))
         320 (analysis_height strip) = Inl IndexSizeError
   \<and> calculateImageQuality example_browser (example_file ''photo.jpg'' 800000 (Some strip))
       = Inr \<lparr>sharpness = 0, exposure = 1 / 2, resolution = 0, total_score = 1 / 10,
              details = [''Blurry'', ''0.0MP'']\<rparr>
   \<and> calculateImageQuality example_browser (example_file ''photo.jpg'' 800000 (Some strip))
       \<noteq> Inr \<lparr>sharpness = 0, exposure = 0, resolution = 0, total_score = 0, details = []\<rparr>"
proof -
  have dims: "width strip = 1000" "height strip = 1"
    by (simp_all add: strip_def)
  show ?thesis
    by (simp add: example_file_def getContext_def example_browser_def example_heights
          getImageData_def calculateImageQuality_def calculateImageQuality_try_def
          loadImage_def Let_def calculateSharpness_def calculateExposureScore_def
          quality_details_def dims toFixed1_def string_of_nat.simps digit_char_def)
qed

text \<open>
  C6, amended. When the decoding fails (\<open>loadImage\<close> rejects, or no canvas context is
  obtained), \<open>calculateImageQuality\<close> resolves with the zero score: all four numbers 0
  and no tag. When the image decodes and only the buffer access fails, the two
  heuristics fall back on their own defaults: sharpness 0, exposure 0.5, the resolution
  as computed from the dimensions, total \<open>0.1 + 0.2 \<cdot> resolution\<close>, and the tags
  "Blurry" and the megapixels. In every case the promise resolves.
\<close>

theorem quality_failure_modes:
  assumes "res = real (width img * height img) / 1000000"
    and "normRes = min (max ((res - 2) / 10) 0) 1"
  shows
    "(loadImage f = Inl LoadError \<or> getContext br = None
        \<longrightarrow> calculateImageQuality br f =
              Inr \<lparr>sharpness = 0, exposure = 0, resolution = 0, total_score = 0,
                   details = []\<rparr>)
     \<and> (file_image f = Some img \<and> getContext br = Some canvas
          \<and> getImageData br (drawImage canvas img 320 (analysis_height img))
                320 (analysis_height img) = Inl e
        \<longrightarrow> calculateImageQuality br f =
              Inr \<lparr>sharpness = 0, exposure = 0.5, resolution = normRes,
                   total_score = 0.1 + 0.2 * normRes,
                   details = [''Blurry'', toFixed1 res @ ''MP'']\<rparr>)
     \<and> (\<exists>q. calculateImageQuality br f = Inr q)"
  unfolding assms
  by (auto simp: calculateImageQuality_def calculateImageQuality_try_def loadImage_def
        Let_def calculateSharpness_def calculateExposureScore_def quality_details_def
        split: sum.split option.split)

theorem quality_failure_modes_witness:
  "loadImage (example_file ''photo.jpg'' 800000 None) = Inl LoadError
   \<and> calculateImageQuality example_browser (example_file ''photo.jpg'' 800000 None) =
         Inr \<lparr>sharpness = 0, exposure = 0, resolution = 0, total_score = 0, details = []\<rparr>
   \<and> file_image (example_file ''photo.jpg'' 800000 (Some strip)) = Some strip
   \<and> getContext example_browser = Some blank_canvas
   \<and> getImageData example_browser
         (drawImage blank_canvas strip 320 (analysis_height strip))
         320 (analysis_height strip) = Inl IndexSizeError
   \<and> calculateImageQuality example_browser (example_file ''photo.jpg'' 800000 (Some strip)) =
         Inr \<lparr>sharpness = 0, exposure = 0.5, resolution = 0, total_score = 0.1,
              details = [''Blurry'', toFixed1 (1 / 1000) @ ''MP'']\<rparr>"
proof -
  have dims: "width strip = 1000" "height strip = 1"
    by (simp_all add: strip_def)
  have a: "loadImage (example_file ''photo.jpg'' 800000 None) = Inl LoadError"
    by (simp add: loadImage_def example_file_def)
  have b: "file_image (example_file ''photo.jpg'' 800000 (Some strip)) = Some strip"
    by (simp add: example_file_def)
  have c: "getContext example_browser = Some blank_canvas"
    by (simp add: getContext_def example_browser_def)
  have d: "getImageData example_browser
             (drawImage blank_canvas strip 320 (analysis_height strip))
             320 (analysis_height strip) = Inl IndexSizeError"
    by (simp add: getImageData_def example_heights)
  show ?thesis
    using a b c d
      quality_failure_modes [where br = example_browser
        and f = "example_file ''photo.jpg'' 800000 None", OF refl refl]
      quality_failure_modes [where br = example_browser and img = strip
        and canvas = blank_canvas and e = IndexSizeError
        and f = "example_file ''photo.jpg'' 800000 (Some strip)", OF refl refl]
    by (simp add: dims)
qed

subsection \<open>Duplicate detection\<close>

text \<open>The invariants of the inner and of the outer loop.\<close>

lemma window_body_inv:
  assumes "window_inv P U st" and "j < length P"
  shows "window_inv P U (window_body P cur j st)"
proof -
  obtain grp V where st: "st = (grp, V)" by (cases st)
  from assms(2) have mem: "P ! j \<in> set P" by simp
  from assms(1) mem show ?thesis
    unfolding st window_inv_def window_body_def Let_def
    by (auto simp: image_iff)
qed

lemma window_loop_inv:
  "window_inv P U st \<Longrightarrow> L \<le> length P \<Longrightarrow> window_inv P U (window_loop P cur L j st)"
proof (induction P cur L j st rule: window_loop.induct)
  case (1 P cur L j st)
  show ?case
  proof (cases "j < L")
    case True
    with "1.prems" have "window_inv P U (window_body P cur j st)"
      by (intro window_body_inv) simp_all
    from "1.IH" [OF True this "1.prems"(2)] True show ?thesis
      by (simp add: window_loop.simps [of P cur L j])
  next
    case False
    with "1.prems" show ?thesis
      by (simp add: window_loop.simps [of P cur L j])
  qed
qed

lemma sorted_rev_map_uminus:
  fixes f :: "'a \<Rightarrow> real"
  shows "sorted (rev (map f xs)) \<longleftrightarrow> sorted (map (\<lambda>x. - f x) xs)"
  by (simp add: sorted_wrt_rev sorted_map sorted_wrt_map)

lemma descending_sorted:
  "sorted (rev (map quality_total (sort_key (\<lambda>x. - quality_total x) xs)))"
  by (simp add: sorted_rev_map_uminus)

lemma distinct_map_sort_key:
  "distinct (map g (sort_key f xs)) \<longleftrightarrow> distinct (map g xs)"
  by (simp add: distinct_map)

lemma descending_first_two:
  assumes "sorted (rev ts)" and "2 \<le> length ts"
  shows "ts ! 1 \<le> (ts ! 0 :: real)"
proof -
  from assms(2) obtain a b rest where "ts = a # b # rest"
    by (cases ts; cases "tl ts") auto
  with assms(1) show ?thesis
    by (simp add: sorted_append)
qed

lemma make_group_emitted:
  assumes "1 < length grp" and "list_all (\<lambda>m. quality m \<noteq> None) grp"
  shows "emitted_group (make_group cur grp)"
  using assms
  by (simp add: emitted_group_def make_group_def Let_def descending_sorted list_all_iff)

lemma make_group_ids:
  "set (items (make_group cur grp)) = set grp"
  "distinct (map item_id (items (make_group cur grp))) \<longleftrightarrow> distinct (map item_id grp)"
  by (simp_all add: make_group_def Let_def distinct_map_sort_key)

lemma group_ids_append:
  "group_ids (gs @ [g]) = group_ids gs @ map item_id (items g)"
  by (simp add: group_ids_def)

lemma group_body_inv:
  assumes inv: "group_inv st" and i: "i < length P"
    and q: "list_all (\<lambda>m. quality m \<noteq> None) P"
  shows "group_inv (group_body P i st)"
proof -
  obtain gs V where st: "st = (gs, V)" by (cases st)
  let ?cur = "P ! i"
  let ?L = "min (length P) (i + 50)"
  let ?U = "set (group_ids gs)"
  from inv have d: "distinct (group_ids gs)" and sub: "?U \<subseteq> V" and em: "list_all emitted_group gs"
    by (simp_all add: st group_inv_def)
  show ?thesis
  proof (cases "item_id ?cur \<in> V")
    case True
    with inv show ?thesis
      by (simp add: st group_body_def Let_def)
  next
    case False
    obtain grp V' where w: "window_loop P ?cur ?L (i + 1) ([?cur], insert (item_id ?cur) V) = (grp, V')"
      by fastforce
    have "window_inv P ?U ([?cur], insert (item_id ?cur) V)"
      using False sub i by (auto simp: window_inv_def)
    then have "window_inv P ?U (window_loop P ?cur ?L (i + 1) ([?cur], insert (item_id ?cur) V))"
      by (rule window_loop_inv) simp
    then have wi: "window_inv P ?U (grp, V')"
      unfolding w .
    then have grp: "set grp \<subseteq> set P" "distinct (map item_id grp)" "item_id ` set grp \<subseteq> V'"
      "item_id ` set grp \<inter> ?U = {}" "?U \<subseteq> V'"
      by (simp_all add: window_inv_def)
    show ?thesis
    proof (cases "1 < length grp")
      case long: True
      from q grp(1) have "list_all (\<lambda>m. quality m \<noteq> None) grp"
        by (auto simp: list_all_iff)
      with long have e: "emitted_group (make_group ?cur grp)"
        by (rule make_group_emitted)
      have "group_inv (gs @ [make_group ?cur grp], V')"
        using d em e grp
        by (auto simp: group_inv_def group_ids_append make_group_ids)
      with False w long show ?thesis
        by (simp add: st group_body_def Let_def)
    next
      case short: False
      have "group_inv (gs, V')"
        using d em grp(5) by (simp add: group_inv_def)
      with False w short show ?thesis
        by (simp add: st group_body_def Let_def)
    qed
  qed
qed

lemma group_loop_inv:
  "group_inv st \<Longrightarrow> list_all (\<lambda>m. quality m \<noteq> None) P \<Longrightarrow> group_inv (group_loop P i st)"
proof (induction P i st rule: group_loop.induct)
  case (1 P i st)
  show ?case
  proof (cases "i < length P")
    case True
    from "1.prems"(1) True "1.prems"(2) have "group_inv (group_body P i st)"
      by (rule group_body_inv)
    from "1.IH" [OF True this "1.prems"(2)] True show ?thesis
      by (simp add: group_loop.simps [of P i])
  next
    case False
    with "1.prems" show ?thesis
      by (simp add: group_loop.simps [of P i])
  qed
qed

lemma prepare_items_quality:
  "prepare_items br xs = Inr P \<Longrightarrow> list_all (\<lambda>m. quality m \<noteq> None) P"
proof (induction xs arbitrary: P)
  case Nil
  then show ?case by simp
next
  case (Cons x xs)
  then show ?case
    by (auto split: if_splits sum.splits option.splits)
qed

lemma detectDuplicates_inv:
  assumes "detectDuplicates br its = Inr groups"
  shows "distinct (group_ids groups)" and "list_all emitted_group groups"
proof -
  from assms obtain P where P: "prepare_items br (sort_key timestamp its) = Inr P"
    and g: "groups = fst (group_loop P 0 ([], {}))"
    by (auto simp: detectDuplicates_def Let_def split: sum.splits)
  have "group_inv ([], {})"
    by (simp add: group_inv_def group_ids_def)
  then have "group_inv (group_loop P 0 ([], {}))"
    using prepare_items_quality [OF P] by (rule group_loop_inv)
  then show "distinct (group_ids groups)" and "list_all emitted_group groups"
    unfolding g group_inv_def by (auto split: prod.splits)
qed

text \<open>The example batch: two groups, \<open>b, a, c\<close> seeded by \<open>a\<close> and \<open>d, e\<close> seeded by \<open>d\<close>.\<close>

lemma shot_fields:
  "item_id (shot i ts h t) = i" "item_type (shot i ts h t) = Image"
  "timestamp (shot i ts h t) = ts" "hash (shot i ts h t) = Some h"
  "quality (shot i ts h t) \<noteq> None"
  "quality_total (shot i ts h t) = t"
  by (simp_all add: shot_def example_item_def quality_total_def)

lemma example_distances:
  "calculateHammingDistance
     ''0000000000000000000000000000000000000000000000000000000000000000''
     ''1000000000000000000000000000000000000000000000000000000000000000'' = 1"
  "calculateHammingDistance
     ''0000000000000000000000000000000000000000000000000000000000000000''
     ''1100000000000000000000000000000000000000000000000000000000000000'' = 2"
  "calculateHammingDistance
     ''0000000000000000000000000000000000000000000000000000000000000000''
     ''1111111111111111111111111111111111111111111111111111111111111111'' = 64"
  "calculateHammingDistance
     ''0000000000000000000000000000000000000000000000000000000000000000''
     ''0111111111111111111111111111111111111111111111111111111111111111'' = 63"
  "calculateHammingDistance
     ''1111111111111111111111111111111111111111111111111111111111111111''
     ''0111111111111111111111111111111111111111111111111111111111111111'' = 1"
  by code_simp+

lemma example_batch_groups:
  "detectDuplicates example_browser example_batch =
     Inr [\<lparr>group_id = ''group-a'',
           items = [example_batch ! 4, example_batch ! 2, example_batch ! 0],
           bestItemId = ''b'', scoreGap = 0.2\<rparr>,
          \<lparr>group_id = ''group-d'',
           items = [example_batch ! 3, example_batch ! 1],
           bestItemId = ''d'', scoreGap = 0.2\<rparr>]"
  by (simp add: detectDuplicates_def example_batch_def shot_fields truthy_def
        group_loop.simps group_body_def window_loop.simps window_body_def make_group_def
        example_distances Let_def)

lemma sort_descending:
  fixes ts :: "real list"
  assumes "sorted (rev ts)"
  shows "rev (sort ts) = ts"
proof -
  have "sort ts = sort (rev ts)"
    by (rule properties_for_sort) simp_all
  also have "\<dots> = rev ts"
    using assms by (rule sorted_sort_id)
  finally show ?thesis by simp
qed

lemma descending_max:
  fixes ts :: "real list"
  assumes "sorted (rev ts)" and "t \<in> set ts"
  shows "t \<le> ts ! 0"
proof -
  from assms(2) obtain a rest where ts: "ts = a # rest"
    by (cases ts) auto
  with assms show ?thesis
    by (auto simp: sorted_append)
qed

text \<open>
  C2. Every group that \<open>detectDuplicates\<close> emits has at least two members; its
  \<open>bestItemId\<close> is the id of a member whose quality total is maximal in the group; its
  \<open>scoreGap\<close> is the highest total of the members minus the second highest (the first
  two entries of the totals in descending order) and is not negative. Every member has
  a quality, so its total is the \<open>total\<close> of that quality.
\<close>

theorem duplicate_group_best_and_gap:
  assumes "detectDuplicates br its = Inr groups" and "g \<in> set groups"
  shows "2 \<le> length (items g)
         \<and> (\<exists>best \<in> set (items g). bestItemId g = item_id best
               \<and> (\<forall>m \<in> set (items g). quality_total m \<le> quality_total best))
         \<and> scoreGap g = rev (sort (map quality_total (items g))) ! 0
                          - rev (sort (map quality_total (items g))) ! 1
         \<and> 0 \<le> scoreGap g
         \<and> (\<forall>m \<in> set (items g). \<exists>q. quality m = Some q \<and> quality_total m = total_score q)"
proof -
  from detectDuplicates_inv(2) [OF assms(1)] assms(2) have e: "emitted_group g"
    by (simp add: list_all_iff)
  let ?ts = "map quality_total (items g)"
  from e have len: "2 \<le> length (items g)" and desc: "sorted (rev ?ts)"
    and q: "\<forall>m \<in> set (items g). quality m \<noteq> None"
    and best: "bestItemId g = item_id (items g ! 0)"
    and gap: "scoreGap g = quality_total (items g ! 0) - quality_total (items g ! 1)"
    by (simp_all add: emitted_group_def list_all_iff)
  from len obtain a b rest where abr: "items g = a # b # rest"
    by (cases "items g"; cases "tl (items g)") auto
  then have n0: "?ts ! 0 = quality_total (items g ! 0)"
    and n1: "?ts ! 1 = quality_total (items g ! 1)"
    by simp_all
  have first: "items g ! 0 \<in> set (items g)"
    unfolding abr by simp
  have "\<forall>m \<in> set (items g). quality_total m \<le> quality_total (items g ! 0)"
  proof
    fix m assume "m \<in> set (items g)"
    then have "quality_total m \<in> set ?ts" by simp
    from descending_max [OF desc this] n0 show "quality_total m \<le> quality_total (items g ! 0)"
      by simp
  qed
  with first best
  have c2: "\<exists>best \<in> set (items g). bestItemId g = item_id best
              \<and> (\<forall>m \<in> set (items g). quality_total m \<le> quality_total best)"
    by blast
  have c3: "scoreGap g = rev (sort ?ts) ! 0 - rev (sort ?ts) ! 1"
    unfolding sort_descending [OF desc] n0 n1 by (rule gap)
  have "?ts ! 1 \<le> ?ts ! 0"
    using desc len by (intro descending_first_two) simp_all
  then have c4: "0 \<le> scoreGap g"
    unfolding gap n0 n1 by simp
  have c5: "\<forall>m \<in> set (items g). \<exists>q. quality m = Some q \<and> quality_total m = total_score q"
    using q by (auto simp: quality_total_def)
  from len c2 c3 c4 c5 show ?thesis by blast
qed

theorem duplicate_group_best_and_gap_witness:
  "detectDuplicates example_browser example_batch =
     Inr [\<lparr>group_id = ''group-a'',
           items = [example_batch ! 4, example_batch ! 2, example_batch ! 0],
           bestItemId = ''b'', scoreGap = 0.2\<rparr>,
          \<lparr>group_id = ''group-d'',
           items = [example_batch ! 3, example_batch ! 1],
           bestItemId = ''d'', scoreGap = 0.2\<rparr>]
   \<and> map quality_total [example_batch ! 4, example_batch ! 2, example_batch ! 0]
       = [0.9, 0.7, 0.5]
   \<and> item_id (example_batch ! 4) = ''b''
   \<and> (0.2 :: real) = rev (sort [0.9, 0.7, 0.5]) ! 0 - rev (sort [0.9, 0.7, 0.5]) ! 1
   \<and> (0 :: real) \<le> 0.2"
proof -
  let ?g = "\<lparr>group_id = ''group-a'',
           items = [example_batch ! 4, example_batch ! 2, example_batch ! 0],
           bestItemId = ''b'', scoreGap = 0.2\<rparr>"
  let ?h = "\<lparr>group_id = ''group-d'',
           items = [example_batch ! 3, example_batch ! 1],
           bestItemId = ''d'', scoreGap = 0.2\<rparr>"
  have t: "map quality_total [example_batch ! 4, example_batch ! 2, example_batch ! 0]
             = [0.9, 0.7, 0.5]"
    by (simp add: example_batch_def shot_fields)
  have i: "item_id (example_batch ! 4) = ''b''"
    by (simp add: example_batch_def shot_fields)
  have "?g \<in> set [?g, ?h]" by simp
  from duplicate_group_best_and_gap [OF example_batch_groups this]
  have "scoreGap ?g = rev (sort (map quality_total (items ?g))) ! 0
                      - rev (sort (map quality_total (items ?g))) ! 1"
    and "0 \<le> scoreGap ?g"
    by blast+
  then have "(0.2 :: real) = rev (sort [0.9, 0.7, 0.5]) ! 0 - rev (sort [0.9, 0.7, 0.5]) ! 1"
    and "(0 :: real) \<le> 0.2"
    unfolding DuplicateGroup.simps t by simp_all
  with example_batch_groups t i show ?thesis by blast
qed

lemma distinct_concat_apart:
  assumes "distinct (concat xss)" and "i < j" and "j < length xss"
  shows "set (xss ! i) \<inter> set (xss ! j) = {}"
  using assms
proof (induction xss arbitrary: i j)
  case Nil
  then show ?case by simp
next
  case (Cons x xss)
  from Cons.prems(2) obtain j' where j: "j = Suc j'"
    by (cases j) auto
  with Cons.prems(3) have j': "j' < length xss" by simp
  show ?case
  proof (cases i)
    case 0
    from j' have "xss ! j' \<in> set xss"
      by simp
    then have "set (xss ! j') \<subseteq> set (concat xss)"
      by auto
    with Cons.prems(1) show ?thesis
      unfolding 0 j by auto
  next
    case (Suc i')
    with Cons.prems(2) j have "i' < j'" by simp
    from Cons.IH [OF _ this j'] Cons.prems(1) show ?thesis
      unfolding Suc j by simp
  qed
qed

text \<open>
  C10. In the list of groups that \<open>detectDuplicates\<close> emits no id occurs twice: the ids
  of all members, group after group, are pairwise different. So no group has an id
  twice, and two groups at different positions have no id in common.
\<close>

theorem duplicate_groups_disjoint:
  assumes "detectDuplicates br its = Inr groups"
  shows "distinct (concat (map (\<lambda>g. map item_id (items g)) groups))
         \<and> (\<forall>g \<in> set groups. distinct (map item_id (items g)))
         \<and> (\<forall>i < length groups. \<forall>j < length groups. i \<noteq> j \<longrightarrow>
               item_id ` set (items (groups ! i)) \<inter> item_id ` set (items (groups ! j)) = {})"
proof -
  let ?ids = "map (\<lambda>g. map item_id (items g)) groups"
  have d: "distinct (concat ?ids)"
    using detectDuplicates_inv(1) [OF assms] by (simp add: group_ids_def)
  have each: "\<forall>g \<in> set groups. distinct (map item_id (items g))"
    using d by (auto simp: distinct_concat_iff)
  have apart: "item_id ` set (items (groups ! i)) \<inter> item_id ` set (items (groups ! j)) = {}"
    if "i < length groups" "j < length groups" "i \<noteq> j" for i j
  proof -
    have "set (?ids ! i) \<inter> set (?ids ! j) = {}"
    proof (cases "i < j")
      case True
      from d True that(2) show ?thesis
        by (intro distinct_concat_apart) simp_all
    next
      case False
      with that(3) have "j < i" by simp
      from d this that(1) have "set (?ids ! j) \<inter> set (?ids ! i) = {}"
        by (intro distinct_concat_apart) simp_all
      then show ?thesis by blast
    qed
    with that show ?thesis by simp
  qed
  from d each apart show ?thesis by blast
qed

theorem duplicate_groups_disjoint_witness:
  "detectDuplicates example_browser example_batch =
     Inr [\<lparr>group_id = ''group-a'',
           items = [example_batch ! 4, example_batch ! 2, example_batch ! 0],
           bestItemId = ''b'', scoreGap = 0.2\<rparr>,
          \<lparr>group_id = ''group-d'',
           items = [example_batch ! 3, example_batch ! 1],
           bestItemId = ''d'', scoreGap = 0.2\<rparr>]
   \<and> distinct (map item_id
         ([example_batch ! 4, example_batch ! 2, example_batch ! 0]
          @ [example_batch ! 3, example_batch ! 1]))"
  using duplicate_groups_disjoint [OF example_batch_groups] example_batch_groups
  by simp

text \<open>A burst whose items are ready for grouping.\<close>

lemma hamming_same: "calculateHammingDistance h h = 0"
  by (simp add: hamming_card differing_def)

lemma prepare_items_ready:
  "list_all (\<lambda>x. item_type x = Image \<and> truthy (hash x) \<and> quality x \<noteq> None) xs
     \<Longrightarrow> prepare_items br xs = Inr xs"
  by (induction xs) auto

lemma burst_length: "length (burst n) = n"
  by (simp add: burst_def)

lemma burst_nth:
  assumes "k < n"
  shows "item_id (burst n ! k) = string_of_nat k"
    and "hash (burst n ! k) = Some (replicate 64 CHR ''0'')"
    and "quality_total (burst n ! k) = 1"
  using assms by (simp_all add: burst_def example_item_def quality_total_def example_quality_def)

lemma burst_sorted: "sort_key timestamp (burst n) = burst n"
proof (rule sort_key_id_if_sorted)
  have "map timestamp (burst n) = map int [0..<n]"
    by (simp add: burst_def example_item_def)
  moreover have "sorted (map int [0..<n])"
    by (simp add: sorted_map sorted_wrt_iff_nth_less)
  ultimately show "sorted (map timestamp (burst n))" by simp
qed

lemma burst_prepared: "prepare_items br (burst n) = Inr (burst n)"
  by (rule prepare_items_ready)
     (simp add: list_all_iff burst_def example_item_def truthy_def)

lemma burst_take_50:
  "take 50 (burst 51) = map (\<lambda>k. burst 51 ! k) [0..<50]"
  by (rule nth_equalityI) (simp_all add: burst_length)

text \<open>
  What the inner loop computes when the ids of the list are pairwise different: the
  candidates at the indices \<open>j, ..., lookAhead - 1\<close> that are unvisited and near
  duplicates of \<open>current\<close> join the group, in this order. For a seed at index \<open>i\<close> these
  are taken from the indices \<open>i + 1, ..., min (length, i + 50) - 1\<close>, at most 49.
\<close>

lemma window_loop_distinct:
  assumes "distinct (map item_id P)" and "L \<le> length P"
  shows "window_loop P cur L j (grp, V) =
           (grp @ filter (\<lambda>c. item_id c \<notin> V \<and> near_duplicate (hash cur) (hash c))
                    (map (\<lambda>k. P ! k) [j..<L]),
            V \<union> item_id ` set (filter (\<lambda>c. item_id c \<notin> V \<and> near_duplicate (hash cur) (hash c))
                    (map (\<lambda>k. P ! k) [j..<L])))"
  using assms
proof (induction P cur L j "(grp, V)" arbitrary: grp V rule: window_loop.induct)
  case (1 P cur L j)
  show ?case
  proof (cases "j < L")
    case False
    then show ?thesis
      by (simp add: window_loop.simps [of P cur L j])
  next
    case True
    let ?c = "P ! j"
    let ?near = "\<lambda>c. near_duplicate (hash cur) (hash c)"
    have upt: "[j..<L] = j # [Suc j..<L]"
      using True by (simp add: upt_rec)
    have later: "item_id (P ! k) \<noteq> item_id ?c" if "k \<in> set [Suc j..<L]" for k
    proof -
      from that "1.prems"(2) have "k < length P" "j < length P" "k \<noteq> j" by auto
      with "1.prems"(1) show ?thesis
        by (simp add: distinct_conv_nth)
    qed
    have same: "filter (\<lambda>c. item_id c \<notin> insert (item_id ?c) V \<and> ?near c) (map (\<lambda>k. P ! k) [Suc j..<L])
                = filter (\<lambda>c. item_id c \<notin> V \<and> ?near c) (map (\<lambda>k. P ! k) [Suc j..<L])"
      using later by (intro filter_cong) auto
    obtain grp1 V1 where b: "window_body P cur j (grp, V) = (grp1, V1)"
      by fastforce
    from "1.hyps" [OF True b "1.prems"] True
    have step: "window_loop P cur L j (grp, V) =
           (grp1 @ filter (\<lambda>c. item_id c \<notin> V1 \<and> ?near c) (map (\<lambda>k. P ! k) [Suc j..<L]),
            V1 \<union> item_id ` set (filter (\<lambda>c. item_id c \<notin> V1 \<and> ?near c)
                    (map (\<lambda>k. P ! k) [Suc j..<L])))"
      by (simp add: window_loop.simps [of P cur L j] b)
    let ?Q = "\<lambda>c. item_id c \<notin> V \<and> ?near c"
    let ?rest = "filter ?Q (map (\<lambda>k. P ! k) [Suc j..<L])"
    show ?thesis
    proof (cases "?Q ?c")
      case add: True
      then have g: "grp1 = grp @ [?c]" and v: "V1 = insert (item_id ?c) V"
        using b by (auto simp: window_body_def Let_def)
      have all: "filter ?Q (map (\<lambda>k. P ! k) [j..<L]) = ?c # ?rest"
        unfolding upt using add by simp
      have "window_loop P cur L j (grp, V) =
              ((grp @ [?c]) @ ?rest, insert (item_id ?c) V \<union> item_id ` set ?rest)"
        unfolding step g v same ..
      then show ?thesis
        unfolding all by simp
    next
      case skip: False
      then have g: "grp1 = grp" and v: "V1 = V"
        using b by (auto simp: window_body_def Let_def split: if_splits)
      have all: "filter ?Q (map (\<lambda>k. P ! k) [j..<L]) = ?rest"
        unfolding upt using skip by simp
      show ?thesis
        unfolding step g v all ..
    qed
  qed
qed


lemma scanned_window:
  assumes "distinct (map item_id P)" and "i < length P" and "item_id (P ! i) \<notin> V"
  shows "fst (window_loop P (P ! i) (min (length P) (i + 50)) (i + 1)
                ([P ! i], insert (item_id (P ! i)) V))
         = P ! i # filter (\<lambda>c. item_id c \<notin> V \<and> near_duplicate (hash (P ! i)) (hash c))
                     (map (\<lambda>k. P ! k) [i + 1..<min (length P) (i + 50)])"
    and "length [i + 1..<min (length P) (i + 50)] \<le> 49"
proof -
  let ?L = "min (length P) (i + 50)"
  let ?near = "\<lambda>c. near_duplicate (hash (P ! i)) (hash c)"
  have later: "item_id (P ! k) \<noteq> item_id (P ! i)" if "k \<in> set [i + 1..<?L]" for k
  proof -
    from that assms(2) have "k < length P" "k \<noteq> i" by auto
    with assms(1,2) show ?thesis
      by (simp add: distinct_conv_nth)
  qed
  have "filter (\<lambda>c. item_id c \<notin> insert (item_id (P ! i)) V \<and> ?near c)
          (map (\<lambda>k. P ! k) [i + 1..<?L])
        = filter (\<lambda>c. item_id c \<notin> V \<and> ?near c) (map (\<lambda>k. P ! k) [i + 1..<?L])"
    using later by (intro filter_cong) auto
  then show "fst (window_loop P (P ! i) ?L (i + 1) ([P ! i], insert (item_id (P ! i)) V))
         = P ! i # filter (\<lambda>c. item_id c \<notin> V \<and> ?near c) (map (\<lambda>k. P ! k) [i + 1..<?L])"
    by (simp add: window_loop_distinct [OF assms(1)])
  show "length [i + 1..<?L] \<le> 49"
    by simp
qed

text \<open>
  C5 fails on the code: the window ends before index \<open>i + 50\<close>, so only 49 candidates
  after the seed are scanned. In a burst of 51 identical shots the seed at index 0
  collects the items 1 to 49; the item at index 50, the fiftieth candidate, has the
  hash of the seed and is unvisited, yet it is left out of the group, and being alone
  it forms none.
\<close>

theorem fiftieth_candidate_not_scanned:
  "detectDuplicates example_browser (burst 51) =
     Inr [\<lparr>group_id = ''group-0'', items = take 50 (burst 51), bestItemId = ''0'',
           scoreGap = 0\<rparr>]
   \<and> hash (burst 51 ! 50) = hash (burst 51 ! 0)
   \<and> item_id (burst 51 ! 50) \<notin> item_id ` set (take 50 (burst 51))"
proof -
  have "fst (group_loop (burst 51) 0 ([], {})) =
          [\<lparr>group_id = ''group-0'', items = map (\<lambda>k. burst 51 ! k) [0..<50],
            bestItemId = ''0'', scoreGap = 0\<rparr>]"
    by (simp add: group_loop.simps group_body_def window_loop.simps window_body_def
          make_group_def Let_def burst_length burst_nth hamming_same string_of_nat.simps
          digit_char_def upt_rec)
  then have "detectDuplicates example_browser (burst 51) =
     Inr [\<lparr>group_id = ''group-0'', items = take 50 (burst 51), bestItemId = ''0'',
           scoreGap = 0\<rparr>]"
    by (simp add: detectDuplicates_def burst_sorted burst_prepared burst_take_50)
  moreover have "hash (burst 51 ! 50) = hash (burst 51 ! 0)"
    by (simp add: burst_nth)
  moreover have "item_id (burst 51 ! 50) \<notin> item_id ` set (take 50 (burst 51))"
    unfolding burst_take_50
    by (simp add: burst_nth upt_rec string_of_nat.simps digit_char_def)
  ultimately show ?thesis by blast
qed

text \<open>
  C7 fails on the code: the five records of the example batch form two groups, but when
  the batch also holds an image without a stored hash whose file does not decode, the
  promise of \<open>detectDuplicates\<close> rejects with the error of \<open>loadImage\<close> and no group
  is returned.
\<close>

theorem undecodable_record_fails_scan:
  "detectDuplicates example_browser example_batch =
     Inr [\<lparr>group_id = ''group-a'',
           items = [example_batch ! 4, example_batch ! 2, example_batch ! 0],
           bestItemId = ''b'', scoreGap = 0.2\<rparr>,
          \<lparr>group_id = ''group-d'',
           items = [example_batch ! 3, example_batch ! 1],
           bestItemId = ''d'', scoreGap = 0.2\<rparr>]
   \<and> hash broken_item = None
   \<and> loadImage (item_file broken_item) = Inl LoadError
   \<and> detectDuplicates example_browser (example_batch @ [broken_item]) = Inl LoadError"
proof -
  have "detectDuplicates example_browser (example_batch @ [broken_item]) = Inl LoadError"
    by (simp add: detectDuplicates_def example_batch_def shot_fields broken_item_def
          example_item_def example_file_def truthy_def loadImage_def)
  moreover have "hash broken_item = None"
    and "loadImage (item_file broken_item) = Inl LoadError"
    by (simp_all add: broken_item_def example_item_def example_file_def loadImage_def)
  ultimately show ?thesis
    using example_batch_groups by blast
qed

end
